theory Spec2Isabelle
  imports Complex_Main "HOL-Library.Sublist"
begin

section \<open>The relay server (server.js)\<close>

text \<open>
  The relay keeps one upstream WebSocket to Jetstream and a set of downstream
  client sockets. All handlers run on the single-threaded event loop, so the
  server is a state and one transition per dispatched event.
\<close>

datatype ready_state = CONNECTING | OPEN | CLOSING | CLOSED

type_synonym handle = nat

text \<open>
  \<^item> \<open>connectedClients\<close> is the JavaScript \<open>Set\<close>, kept in insertion order (the order
    \<open>forEach\<close> visits it);
  \<^item> \<open>jetstreamConnection\<close> is the module variable: \<open>None\<close> is \<open>null\<close>, otherwise the
    \<open>readyState\<close> the transport reports for the current upstream socket;
  \<^item> \<open>client_state\<close> is the \<open>readyState\<close> the transport reports for each client socket;
  \<^item> \<open>sent\<close> records, per client socket, the arguments of its \<open>send\<close> calls in order;
  \<^item> \<open>timeouts\<close> holds the delays of the pending \<open>setTimeout(connectToJetstream, d)\<close>
    timers, \<open>setTimeout_calls\<close> the delay of every such call made so far;
  \<^item> \<open>upstream_sockets\<close> counts the \<open>new WebSocket(JETSTREAM_URL)\<close> calls made so far;
  \<^item> \<open>next_handle\<close> numbers the socket objects that \<open>wss\<close> hands to the
    \<open>connection\<close> handler: each one is a new object.
  Console output is not modelled.
\<close>

record relay =
  connectedClients :: "handle list"
  jetstreamConnection :: "ready_state option"
  client_state :: "handle \<Rightarrow> ready_state"
  sent :: "handle \<Rightarrow> string list"
  timeouts :: "nat list"
  setTimeout_calls :: "nat list"
  upstream_sockets :: nat
  next_handle :: handle

definition set_add :: "handle \<Rightarrow> handle list \<Rightarrow> handle list" where
  "set_add h cs = (if h \<in> set cs then cs else cs @ [h])"

definition set_delete :: "handle \<Rightarrow> handle list \<Rightarrow> handle list" where
  "set_delete h cs = filter (\<lambda>c. c \<noteq> h) cs"

definition setTimeout :: "nat \<Rightarrow> relay \<Rightarrow> relay" where
  "setTimeout delay s =
     s\<lparr>timeouts := timeouts s @ [delay], setTimeout_calls := setTimeout_calls s @ [delay]\<rparr>"

definition send :: "handle \<Rightarrow> string \<Rightarrow> relay \<Rightarrow> relay" where
  "send client msg s = s\<lparr>sent := (sent s)(client := sent s client @ [msg])\<rparr>"

text \<open>\<open>connectToJetstream\<close>: a new upstream socket replaces the variable.\<close>

definition connectToJetstream :: "relay \<Rightarrow> relay" where
  "connectToJetstream s =
     s\<lparr>jetstreamConnection := Some CONNECTING, upstream_sockets := Suc (upstream_sockets s)\<rparr>"

text \<open>
  The upstream \<open>message\<close> handler. \<open>toString\<close> stands for \<open>data.toString()\<close>, the text
  of the received frame; it is the same value for every recipient.
\<close>

definition forward :: "string \<Rightarrow> relay \<Rightarrow> handle \<Rightarrow> relay" where
  "forward msg s client = (if client_state s client = OPEN then send client msg s else s)"

definition on_jetstream_message :: "('p \<Rightarrow> string) \<Rightarrow> 'p \<Rightarrow> relay \<Rightarrow> relay" where
  "on_jetstream_message toString data s = foldl (forward (toString data)) s (connectedClients s)"

definition on_jetstream_close :: "relay \<Rightarrow> relay" where
  "on_jetstream_close s = setTimeout 5000 s"

definition on_jetstream_error :: "relay \<Rightarrow> relay" where
  "on_jetstream_error s = s"

definition on_connection :: "relay \<Rightarrow> relay" where
  "on_connection s =
     (let ws = next_handle s in
      s\<lparr>connectedClients := set_add ws (connectedClients s),
        client_state := (client_state s)(ws := OPEN),
        next_handle := Suc ws\<rparr>)"

definition on_client_close :: "handle \<Rightarrow> relay \<Rightarrow> relay" where
  "on_client_close ws s = s\<lparr>connectedClients := set_delete ws (connectedClients s)\<rparr>"

definition on_client_error :: "handle \<Rightarrow> relay \<Rightarrow> relay" where
  "on_client_error ws s = s\<lparr>connectedClients := set_delete ws (connectedClients s)\<rparr>"

text \<open>
  Events of the server's event loop. \<open>Transport\<close> and \<open>JetTransport\<close> are the
  transport changing a socket's \<open>readyState\<close>; no handler of the program runs for them.
  \<open>TimerFire\<close> is the oldest pending reconnect timer expiring: its callback is
  \<open>connectToJetstream\<close>, the only function the module passes to \<open>setTimeout\<close>.
\<close>

datatype 'p relay_event =
    JetOpen
  | JetMessage 'p
  | JetClose
  | JetError
  | JetTransport ready_state
  | TimerFire
  | Connection
  | ClientClose handle
  | ClientError handle
  | Transport handle ready_state

fun relay_step :: "('p \<Rightarrow> string) \<Rightarrow> 'p relay_event \<Rightarrow> relay \<Rightarrow> relay" where
  "relay_step ts JetOpen s = s"
| "relay_step ts (JetMessage data) s = on_jetstream_message ts data s"
| "relay_step ts JetClose s = on_jetstream_close s"
| "relay_step ts JetError s = on_jetstream_error s"
| "relay_step ts (JetTransport st) s =
     (case jetstreamConnection s of None \<Rightarrow> s | Some _ \<Rightarrow> s\<lparr>jetstreamConnection := Some st\<rparr>)"
| "relay_step ts TimerFire s =
     (case timeouts s of [] \<Rightarrow> s | d # ds \<Rightarrow> connectToJetstream (s\<lparr>timeouts := ds\<rparr>))"
| "relay_step ts Connection s = on_connection s"
| "relay_step ts (ClientClose ws) s = on_client_close ws s"
| "relay_step ts (ClientError ws) s = on_client_error ws s"
| "relay_step ts (Transport ws st) s = s\<lparr>client_state := (client_state s)(ws := st)\<rparr>"

fun relay_run :: "('p \<Rightarrow> string) \<Rightarrow> 'p relay_event list \<Rightarrow> relay \<Rightarrow> relay" where
  "relay_run ts [] s = s"
| "relay_run ts (e # es) s = relay_run ts es (relay_step ts e s)"

text \<open>The state after the module has been loaded: line 78 has called \<open>connectToJetstream\<close>.\<close>

definition startup :: relay where
  "startup = connectToJetstream
     \<lparr>connectedClients = [], jetstreamConnection = None, client_state = (\<lambda>_. CLOSED),
      sent = (\<lambda>_. []), timeouts = [], setTimeout_calls = [], upstream_sockets = 0,
      next_handle = 0\<rparr>"

text \<open>The payloads of the upstream \<open>message\<close> events of a trace, in arrival order.\<close>

fun payloads :: "'p relay_event list \<Rightarrow> 'p list" where
  "payloads [] = []"
| "payloads (JetMessage d # es) = d # payloads es"
| "payloads (e # es) = payloads es"

text \<open>
  What the \<open>Set\<close> and the \<open>connection\<close> handler guarantee: no handle is a member twice,
  and every member is a socket object that has already been handed out.
\<close>

definition relay_ok :: "relay \<Rightarrow> bool" where
  "relay_ok s \<longleftrightarrow>
     distinct (connectedClients s) \<and> list_all (\<lambda>h. h < next_handle s) (connectedClients s)"

text \<open>A handle that was handed out and is not a member is never registered again.\<close>

definition retired :: "handle \<Rightarrow> relay \<Rightarrow> bool" where
  "retired h s \<longleftrightarrow> h \<notin> set (connectedClients s) \<and> h < next_handle s"

subsection \<open>HTTP routes\<close>

text \<open>
  Express keeps the middleware and routes in the order the module registers them and
  tries them in that order; a handler that answers without calling \<open>next\<close> ends the
  dispatch. The module registers, in this order: \<open>express.static\<close> on \<open>dist\<close> (line 14),
  \<open>app.get('*')\<close> (line 17) and \<open>app.get('/health')\<close> (line 81). The parameter
  \<open>dist_has\<close> says which request paths name a file that \<open>express.static\<close> serves.
\<close>

datatype http_method = GET | HEAD | OTHER_METHOD

record request =
  req_method :: http_method
  req_path :: string

record health_body =
  status :: string
  clients :: nat
  jetstream :: bool

datatype response = StaticFile string | SendFile string | Json health_body | NotFound

datatype outcome = Next | Responded response

definition is_get :: "request \<Rightarrow> bool" where
  "is_get req \<longleftrightarrow> req_method req = GET \<or> req_method req = HEAD"

definition serve_static :: "(string \<Rightarrow> bool) \<Rightarrow> request \<Rightarrow> outcome" where
  "serve_static dist_has req =
     (if is_get req \<and> dist_has (req_path req) then Responded (StaticFile (req_path req))
      else Next)"

text \<open>\<open>app.get('*', ...)\<close>: every path matches; the handler sends \<open>dist/index.html\<close>.\<close>

definition spa_fallback :: "request \<Rightarrow> outcome" where
  "spa_fallback req = (if is_get req then Responded (SendFile ''dist/index.html'') else Next)"

definition lower :: "char \<Rightarrow> char" where
  "lower c = (let n = (of_char c :: nat) in if 65 \<le> n \<and> n \<le> 90 then char_of (n + 32) else c)"

text \<open>Route paths match without regard to case and with an optional final slash.\<close>

definition path_is_health :: "string \<Rightarrow> bool" where
  "path_is_health p \<longleftrightarrow> map lower p = ''/health'' \<or> map lower p = ''/health/''"

text \<open>The body the handler of lines 81 to 87 passes to \<open>res.json\<close>.\<close>

definition health :: "relay \<Rightarrow> health_body" where
  "health s =
     \<lparr>status = ''ok'',
      clients = length (connectedClients s),
      jetstream = (jetstreamConnection s = Some OPEN)\<rparr>"

definition health_route :: "relay \<Rightarrow> request \<Rightarrow> outcome" where
  "health_route s req =
     (if is_get req \<and> path_is_health (req_path req) then Responded (Json (health s)) else Next)"

fun dispatch :: "(request \<Rightarrow> outcome) list \<Rightarrow> request \<Rightarrow> response" where
  "dispatch [] req = NotFound"
| "dispatch (layer # layers) req =
     (case layer req of Responded r \<Rightarrow> r | Next \<Rightarrow> dispatch layers req)"

definition app :: "(string \<Rightarrow> bool) \<Rightarrow> relay \<Rightarrow> (request \<Rightarrow> outcome) list" where
  "app dist_has s = [serve_static dist_has, spa_fallback, health_route s]"

definition handle_request :: "(string \<Rightarrow> bool) \<Rightarrow> relay \<Rightarrow> request \<Rightarrow> response" where
  "handle_request dist_has s req = dispatch (app dist_has s) req"

section \<open>The browser client (BlueSkyVis.tsx)\<close>

subsection \<open>Parsed payloads\<close>

text \<open>
  The value \<open>JSON.parse\<close> returns. Numbers are IEEE doubles; the model leaves their type
  \<open>'n\<close> open. An object is the list of its own properties, each key once. A JavaScript
  value that may be \<open>undefined\<close> is an \<open>option\<close>, \<open>None\<close> for \<open>undefined\<close>.
\<close>

datatype 'n json =
    JNull
  | JBool bool
  | JNumber 'n
  | JString string
  | JArray "'n json list"
  | JObject "(string \<times> 'n json) list"

datatype js_error = SyntaxError | TypeError

text \<open>
  What the browser supplies: \<open>JSON.parse\<close> (\<open>None\<close> when it throws a \<open>SyntaxError\<close>),
  the truth value and the decimal text of a number, and the canvas text width.
\<close>

record 'n platform =
  JSON_parse :: "string \<Rightarrow> 'n json option"
  number_truthy :: "'n \<Rightarrow> bool"
  number_toString :: "'n \<Rightarrow> string"
  measureText :: "string \<Rightarrow> real"

text \<open>
  \<open>x.k\<close> for the property names the handler reads (\<open>commit\<close>, \<open>record\<close>, \<open>text\<close>, \<open>did\<close>,
  \<open>rkey\<close>): a \<open>TypeError\<close> on \<open>null\<close> and \<open>undefined\<close>, the property of an object,
  \<open>undefined\<close> on any other value.
\<close>

fun get_prop :: "string \<Rightarrow> 'n json option \<Rightarrow> js_error + 'n json option" where
  "get_prop k None = Inl TypeError"
| "get_prop k (Some JNull) = Inl TypeError"
| "get_prop k (Some (JObject kvs)) = Inr (map_of kvs k)"
| "get_prop k (Some _) = Inr None"

text \<open>\<open>x?.k\<close>: \<open>undefined\<close> on \<open>null\<close> and \<open>undefined\<close>, never an error.\<close>

fun opt_prop :: "string \<Rightarrow> 'n json option \<Rightarrow> 'n json option" where
  "opt_prop k None = None"
| "opt_prop k (Some JNull) = None"
| "opt_prop k (Some (JObject kvs)) = map_of kvs k"
| "opt_prop k (Some _) = None"

fun truthy :: "'n platform \<Rightarrow> 'n json option \<Rightarrow> bool" where
  "truthy P None = False"
| "truthy P (Some JNull) = False"
| "truthy P (Some (JBool b)) = b"
| "truthy P (Some (JNumber n)) = number_truthy P n"
| "truthy P (Some (JString s)) = (s \<noteq> [])"
| "truthy P (Some (JArray xs)) = True"
| "truthy P (Some (JObject kvs)) = True"

fun join :: "string \<Rightarrow> string list \<Rightarrow> string" where
  "join sep [] = []"
| "join sep [x] = x"
| "join sep (x # y # ys) = x @ sep @ join sep (y # ys)"

text \<open>The text a template literal \<open>`${v}`\<close> inserts for a value that is not \<open>undefined\<close>.\<close>

fun template_text :: "'n platform \<Rightarrow> 'n json \<Rightarrow> string" where
  "template_text P JNull = ''null''"
| "template_text P (JBool b) = (if b then ''true'' else ''false'')"
| "template_text P (JNumber n) = number_toString P n"
| "template_text P (JString s) = s"
| "template_text P (JArray xs) =
     join '','' (map (\<lambda>x. case x of JNull \<Rightarrow> [] | _ \<Rightarrow> template_text P x) xs)"
| "template_text P (JObject kvs) = ''[object Object]''"

subsection \<open>TextWrapper.wrapText\<close>

fun split :: "char \<Rightarrow> string \<Rightarrow> string list" where
  "split sep [] = [[]]"
| "split sep (c # cs) =
     (if c = sep then [] # split sep cs
      else (case split sep cs of w # ws \<Rightarrow> (c # w) # ws | [] \<Rightarrow> [[c]]))"

fun wrap_loop :: "(string \<Rightarrow> real) \<Rightarrow> real \<Rightarrow> string \<Rightarrow> string list \<Rightarrow> string list \<Rightarrow> string list" where
  "wrap_loop width maxWidth currentLine lines [] = lines @ [currentLine]"
| "wrap_loop width maxWidth currentLine lines (word # words) =
     (if width (currentLine @ '' '' @ word) < maxWidth
      then wrap_loop width maxWidth (currentLine @ '' '' @ word) lines words
      else wrap_loop width maxWidth word (lines @ [currentLine]) words)"

definition wrapText :: "(string \<Rightarrow> real) \<Rightarrow> string \<Rightarrow> real \<Rightarrow> string list" where
  "wrapText width text maxWidth =
     (case split CHR '' '' text of
        [] \<Rightarrow> []
      | word0 # words \<Rightarrow> wrap_loop width maxWidth word0 [] words)"

subsection \<open>The effect's state\<close>

text \<open>
  A message object as far as the relay-facing code determines it: the text lines drawn on
  its texture, whether it is a special (centre) message, and its permalink. The mesh, its
  position, speed and render order are presentation and are left out.
\<close>

record message_object =
  text_lines :: "string list"
  special :: bool
  blueSkyUrl :: "string option"

datatype interval_kind = Heartbeat | ConnectionCheck

text \<open>
  The variables the effect's closures share, and the browser objects they refer to:
  \<^item> \<open>sockets\<close>: the \<open>readyState\<close> of every \<open>WebSocket\<close> object the effect has created, by
    number of creation; \<open>ws\<close> is the variable (\<open>None\<close> for \<open>null\<close>);
  \<^item> \<open>reconnectTimeout\<close>, \<open>heartbeatInterval\<close>, \<open>connectionCheckInterval\<close>: the timer
    variables, holding timer ids;
  \<^item> \<open>pending\<close>: the browser's pending \<open>setTimeout\<close> timers (id, delay); all of them
    carry the reconnect callback;
  \<^item> \<open>intervals\<close>: the browser's active \<open>setInterval\<close> timers: id, callback, the
    socket whose \<open>onopen\<close> started it, and the period in ms;
  \<^item> \<open>scheduled\<close>: the delay of every \<open>setTimeout\<close> call made so far;
  \<^item> \<open>pings\<close>: the sockets on which \<open>send('ping')\<close> returned, in order;
  \<^item> \<open>sceneRef\<close>, \<open>texturePoolRef\<close>, \<open>textWrapperRef\<close>: whether the ref is set;
  \<^item> \<open>uncaught\<close>: the exceptions that left a handler; the browser reports them and goes
    on with the next event.
\<close>

record client =
  sockets :: "ready_state list"
  ws :: "nat option"
  reconnectTimeout :: "nat option"
  heartbeatInterval :: "nat option"
  connectionCheckInterval :: "nat option"
  reconnectAttempts :: nat
  shouldReconnect :: bool
  lastMessageTime :: int
  pending :: "(nat \<times> nat) list"
  intervals :: "(nat \<times> interval_kind \<times> nat \<times> nat) list"
  next_timer :: nat
  scheduled :: "nat list"
  pings :: "nat list"
  messageObjects :: "message_object list"
  sceneRef :: bool
  texturePoolRef :: bool
  textWrapperRef :: bool
  discardFraction :: real
  uncaught :: "js_error list"

definition maxReconnectAttempts :: nat where "maxReconnectAttempts = 50"
definition baseReconnectDelay :: nat where "baseReconnectDelay = 2000"
definition connectionTimeout :: int where "connectionTimeout = 10000"

subsection \<open>Decoding: \<open>createMessage\<close> and \<open>ws.onmessage\<close>\<close>

text \<open>
  What the random numbers of one \<open>createMessage\<close> call come to: \<open>wall_floor\<close> is the value
  of \<open>Math.floor(Math.random() * (4 + 1 * settingsRef.current.specialFrequency))\<close>, an
  integer that the browser computes in floating point; \<open>discard_draw\<close> is the
  \<open>Math.random()\<close> compared with \<open>discardFraction\<close>.
\<close>

record draws =
  wall_floor :: int
  discard_draw :: real

definition choose_wall :: "draws \<Rightarrow> int" where
  "choose_wall dr = (let wall = wall_floor dr in if wall > 3 then - 1 else wall)"

definition make_url :: "'n platform \<Rightarrow> 'n json option \<Rightarrow> int \<Rightarrow> js_error + string option" where
  "make_url P postData wall =
     (if \<not> truthy P postData then Inr None
      else case get_prop ''commit'' postData of
        Inl e \<Rightarrow> Inl e
      | Inr commit \<Rightarrow>
          if truthy P (opt_prop ''text'' (opt_prop ''record'' commit)) \<and> wall = - 1 then
            (case get_prop ''did'' postData of
               Inl e \<Rightarrow> Inl e
             | Inr did \<Rightarrow>
                 (case (did, opt_prop ''rkey'' commit) of
                    (Some d, Some r) \<Rightarrow>
                      if truthy P (Some d) \<and> truthy P (Some r)
                      then Inr (Some (''https://bsky.app/profile/'' @ template_text P d
                                      @ ''/post/'' @ template_text P r))
                      else Inr None
                  | _ \<Rightarrow> Inr None))
          else Inr None)"

text \<open>
  \<open>createMessage(text, postData)\<close>. The result is the state and the exception thrown, if
  any: \<open>text.split\<close> is not a function unless \<open>text\<close> is a string.
\<close>

definition createMessage ::
  "'n platform \<Rightarrow> draws \<Rightarrow> 'n json option \<Rightarrow> 'n json option \<Rightarrow> client \<Rightarrow> client \<times> js_error option" where
  "createMessage P dr text postData s =
     (if \<not> sceneRef s \<or> \<not> texturePoolRef s \<or> \<not> textWrapperRef s then (s, None)
      else
        let wall = choose_wall dr in
        if wall \<noteq> - 1 \<and> discardFraction s > 0 \<and> discard_draw dr < discardFraction s
        then (s, None)
        else case text of
          Some (JString str) \<Rightarrow>
            (let lines = wrapText (measureText P) str 650;
                 lines = (if length lines > 10 then take 10 lines else lines)
             in case make_url P postData wall of
                  Inl e \<Rightarrow> (s, Some e)
                | Inr url \<Rightarrow>
                    (s\<lparr>messageObjects := messageObjects s @
                         [\<lparr>text_lines = lines, special = (wall = - 1), blueSkyUrl = url\<rparr>]\<rparr>,
                     None))
        | _ \<Rightarrow> (s, Some TypeError))"

definition onmessage ::
  "'n platform \<Rightarrow> int \<Rightarrow> draws \<Rightarrow> string \<Rightarrow> client \<Rightarrow> client \<times> js_error option" where
  "onmessage P now dr event_data s =
     (let s = s\<lparr>lastMessageTime := now\<rparr> in
      case JSON_parse P event_data of
        None \<Rightarrow> (s, Some SyntaxError)
      | Some data \<Rightarrow>
          (case get_prop ''commit'' (Some data) of
             Inl e \<Rightarrow> (s, Some e)
           | Inr commit \<Rightarrow>
               let text = opt_prop ''text'' (opt_prop ''record'' commit) in
               if truthy P text then createMessage P dr text (Some data) s else (s, None)))"

subsection \<open>Connecting and reconnecting\<close>

text \<open>A timer variable is tested by its truth value; the id 0 would be falsy.\<close>

fun id_truthy :: "nat option \<Rightarrow> bool" where
  "id_truthy None = False"
| "id_truthy (Some i) = (i \<noteq> 0)"

definition clearTimeout :: "nat option \<Rightarrow> client \<Rightarrow> client" where
  "clearTimeout v s = s\<lparr>pending := filter (\<lambda>(i, d). Some i \<noteq> v) (pending s)\<rparr>"

definition clearInterval :: "nat option \<Rightarrow> client \<Rightarrow> client" where
  "clearInterval v s = s\<lparr>intervals := filter (\<lambda>(i, k, c, p). Some i \<noteq> v) (intervals s)\<rparr>"

text \<open>
  \<open>WebSocket.close()\<close>: nothing on a socket that is closing or closed; otherwise the socket
  is \<open>CLOSING\<close> until the transport delivers its \<open>close\<close> event.
\<close>

definition ws_close :: "nat \<Rightarrow> client \<Rightarrow> client" where
  "ws_close c s =
     (if c < length (sockets s) \<and> (sockets s ! c = CONNECTING \<or> sockets s ! c = OPEN)
      then s\<lparr>sockets := (sockets s)[c := CLOSING]\<rparr> else s)"

definition ws_is_open :: "client \<Rightarrow> bool" where
  "ws_is_open s =
     (case ws s of None \<Rightarrow> False | Some c \<Rightarrow> c < length (sockets s) \<and> sockets s ! c = OPEN)"

definition scheduleReconnect :: "client \<Rightarrow> client" where
  "scheduleReconnect s =
     (if \<not> shouldReconnect s \<or> reconnectAttempts s \<ge> maxReconnectAttempts then s
      else
        let delay = min (baseReconnectDelay + reconnectAttempts s * 1000) 10000;
            timer = next_timer s
        in s\<lparr>pending := pending s @ [(timer, delay)],
             scheduled := scheduled s @ [delay],
             next_timer := Suc timer,
             reconnectTimeout := Some timer\<rparr>)"

text \<open>
  \<open>connectWebSocket\<close>. \<open>ctor_ok\<close> tells whether \<open>new WebSocket(websocketUrl)\<close> returns; if
  it throws, the \<open>catch\<close> runs and \<open>ws\<close> keeps its value.
\<close>

definition connectWebSocket :: "bool \<Rightarrow> client \<Rightarrow> client" where
  "connectWebSocket ctor_ok s =
     (if ctor_ok
      then s\<lparr>sockets := sockets s @ [CONNECTING], ws := Some (length (sockets s))\<rparr>
      else scheduleReconnect s)"

text \<open>The callback of the reconnect timer.\<close>

definition reconnect_callback :: "bool \<Rightarrow> client \<Rightarrow> client" where
  "reconnect_callback ctor_ok s =
     (if shouldReconnect s
      then connectWebSocket ctor_ok (s\<lparr>reconnectAttempts := Suc (reconnectAttempts s)\<rparr>)
      else s)"

text \<open>\<open>ws.onopen\<close>, running for socket \<open>c\<close>.\<close>

definition onopen :: "nat \<Rightarrow> int \<Rightarrow> client \<Rightarrow> client" where
  "onopen c now s =
     (let hb = next_timer s; cc = Suc hb in
      s\<lparr>reconnectAttempts := 0,
        lastMessageTime := now,
        heartbeatInterval := Some hb,
        connectionCheckInterval := Some cc,
        intervals := intervals s @ [(hb, Heartbeat, c, 5000), (cc, ConnectionCheck, c, 5000)],
        next_timer := Suc cc\<rparr>)"

text \<open>The heartbeat callback; \<open>send_ok\<close> tells whether \<open>ws.send('ping')\<close> returns.\<close>

definition heartbeat :: "bool \<Rightarrow> client \<Rightarrow> client" where
  "heartbeat send_ok s =
     (case ws s of
        None \<Rightarrow> s
      | Some c \<Rightarrow>
          if ws_is_open s then
            (if send_ok then s\<lparr>pings := pings s @ [c]\<rparr>
             else if shouldReconnect s then scheduleReconnect (ws_close c s) else s)
          else s)"

text \<open>The staleness check callback.\<close>

definition connectionCheck :: "int \<Rightarrow> client \<Rightarrow> client" where
  "connectionCheck now s =
     (let timeSinceLastMessage = now - lastMessageTime s in
      if timeSinceLastMessage > connectionTimeout \<and> ws_is_open s
      then (case ws s of None \<Rightarrow> s | Some c \<Rightarrow> ws_close c s) else s)"

definition onclose :: "client \<Rightarrow> client" where
  "onclose s =
     (let s = (if id_truthy (heartbeatInterval s)
               then (clearInterval (heartbeatInterval s) s)\<lparr>heartbeatInterval := None\<rparr> else s);
          s = (if id_truthy (connectionCheckInterval s)
               then (clearInterval (connectionCheckInterval s) s)\<lparr>connectionCheckInterval := None\<rparr>
               else s)
      in if shouldReconnect s then scheduleReconnect s else s)"

definition onerror :: "client \<Rightarrow> client" where
  "onerror s = s"

text \<open>The effect's cleanup, as far as it touches the connection.\<close>

definition cleanup :: "client \<Rightarrow> client" where
  "cleanup s =
     (let s = s\<lparr>shouldReconnect := False\<rparr>;
          s = (if id_truthy (reconnectTimeout s) then clearTimeout (reconnectTimeout s) s else s);
          s = (if id_truthy (heartbeatInterval s) then clearInterval (heartbeatInterval s) s else s);
          s = (if id_truthy (connectionCheckInterval s)
               then clearInterval (connectionCheckInterval s) s else s)
      in case ws s of None \<Rightarrow> s | Some c \<Rightarrow> ws_close c s)"

subsection \<open>The event loop of the page\<close>

text \<open>
  What the browser can dispatch to the effect: the events of a socket, a timer expiring
  (with the clock reading and what the environment lets the callback's calls do), and
  the component unmounting. An event for a socket is dispatched only in a state of the
  socket in which the browser fires it.
\<close>

datatype client_event =
    SocketOpen nat int
  | SocketMessage nat int draws string
  | SocketError nat
  | SocketClose nat
  | TimeoutFire nat bool
  | IntervalFire nat int bool
  | Unmount

definition socket_in :: "client \<Rightarrow> nat \<Rightarrow> ready_state \<Rightarrow> bool" where
  "socket_in s c st \<longleftrightarrow> c < length (sockets s) \<and> sockets s ! c = st"

definition set_socket :: "nat \<Rightarrow> ready_state \<Rightarrow> client \<Rightarrow> client" where
  "set_socket c st s = s\<lparr>sockets := (sockets s)[c := st]\<rparr>"

definition report :: "client \<times> js_error option \<Rightarrow> client" where
  "report r = (case r of (s, None) \<Rightarrow> s | (s, Some e) \<Rightarrow> s\<lparr>uncaught := uncaught s @ [e]\<rparr>)"

fun client_step :: "'n platform \<Rightarrow> client_event \<Rightarrow> client \<Rightarrow> client" where
  "client_step P (SocketOpen c now) s =
     (if socket_in s c CONNECTING then onopen c now (set_socket c OPEN s) else s)"
| "client_step P (SocketMessage c now dr event_data) s =
     (if socket_in s c OPEN then report (onmessage P now dr event_data s) else s)"
| "client_step P (SocketError c) s = onerror s"
| "client_step P (SocketClose c) s =
     (if c < length (sockets s) \<and> sockets s ! c \<noteq> CLOSED
      then onclose (set_socket c CLOSED s) else s)"
| "client_step P (TimeoutFire timer ctor_ok) s =
     (if timer \<in> fst ` set (pending s)
      then reconnect_callback ctor_ok (s\<lparr>pending := filter (\<lambda>(i, d). i \<noteq> timer) (pending s)\<rparr>)
      else s)"
| "client_step P (IntervalFire timer now send_ok) s =
     (case map_of (intervals s) timer of
        None \<Rightarrow> s
      | Some (Heartbeat, c, period) \<Rightarrow> heartbeat send_ok s
      | Some (ConnectionCheck, c, period) \<Rightarrow> connectionCheck now s)"
| "client_step P Unmount s = cleanup s"

fun client_run :: "'n platform \<Rightarrow> client_event list \<Rightarrow> client \<Rightarrow> client" where
  "client_run P [] s = s"
| "client_run P (e # es) s = client_run P es (client_step P e s)"

text \<open>
  The state when the effect has set its refs, declared its variables and made the
  initial call of \<open>connectWebSocket\<close>. Timer ids are positive.
\<close>

definition mount :: "bool \<Rightarrow> int \<Rightarrow> real \<Rightarrow> client" where
  "mount ctor_ok now discard =
     connectWebSocket ctor_ok
       \<lparr>sockets = [], ws = None, reconnectTimeout = None, heartbeatInterval = None,
        connectionCheckInterval = None, reconnectAttempts = 0, shouldReconnect = True,
        lastMessageTime = now, pending = [], intervals = [], next_timer = 1,
        scheduled = [], pings = [], messageObjects = [],
        sceneRef = True, texturePoolRef = True, textWrapperRef = True,
        discardFraction = discard, uncaught = []\<rparr>"

subsection \<open>A platform and scenarios for concrete runs\<close>

text \<open>
  A platform whose numbers are natural numbers and whose font is 20 pixels wide per
  character. Its \<open>JSON_parse\<close> is the browser's on the texts the runs below use: \<open>ping\<close>
  is not JSON, the others are the literal \<open>null\<close>, the empty object and two posts.
\<close>

fun decimal :: "nat \<Rightarrow> string" where
  "decimal n =
     (if n < 10 then [char_of (48 + n)] else decimal (n div 10) @ [char_of (48 + n mod 10)])"

definition post_hello :: "nat json" where
  "post_hello = JObject [(''commit'', JObject [(''record'', JObject [(''text'', JString ''hello'')])])]"

definition post_hi :: "nat json" where
  "post_hi =
     JObject [(''did'', JString ''abc''),
              (''commit'', JObject [(''rkey'', JString ''xyz''),
                                    (''record'', JObject [(''text'', JString ''hi'')])])]"

definition post_hello_text :: string where
  "post_hello_text = ''{\"commit\":{\"record\":{\"text\":\"hello\"}}}''"

definition post_hi_text :: string where
  "post_hi_text = ''{\"did\":\"abc\",\"commit\":{\"rkey\":\"xyz\",\"record\":{\"text\":\"hi\"}}}''"

definition sample_parse :: "string \<Rightarrow> nat json option" where
  "sample_parse t =
     (if t = ''null'' then Some JNull
      else if t = ''{}'' then Some (JObject [])
      else if t = post_hello_text then Some post_hello
      else if t = post_hi_text then Some post_hi
      else None)"

definition sample_platform :: "nat platform" where
  "sample_platform =
     \<lparr>JSON_parse = sample_parse,
      number_truthy = (\<lambda>n. n \<noteq> 0),
      number_toString = decimal,
      measureText = (\<lambda>s. 20 * real (length s))\<rparr>"


subsection \<open>States and traces for stating the connection claims\<close>


text \<open>
  The state during the attempt after \<open>n\<close> failed ones in a row: socket \<open>n\<close> is connecting,
  the earlier ones are closed, no timer is set.
\<close>

definition attempting :: "nat \<Rightarrow> client \<Rightarrow> bool" where
  "attempting n s \<longleftrightarrow>
     length (sockets s) = Suc n \<and> sockets s ! n = CONNECTING \<and> ws s = Some n
     \<and> list_all (\<lambda>st. st = CLOSED) (take n (sockets s))
     \<and> reconnectAttempts s = n \<and> shouldReconnect s \<and> pending s = [] \<and> intervals s = []
     \<and> heartbeatInterval s = None \<and> connectionCheckInterval s = None
     \<and> scheduled s = map (\<lambda>k. min (2000 + k * 1000) 10000) [0..<n]"


text \<open>
  Socket \<open>c\<close> is the current attempt and has not opened; every other socket is closed and
  no timer is set. This is the state a connection attempt starts in.
\<close>

definition hanging :: "nat \<Rightarrow> client \<Rightarrow> bool" where
  "hanging c s \<longleftrightarrow>
     ws s = Some c \<and> c < length (sockets s)
     \<and> (sockets s ! c = CONNECTING \<or> sockets s ! c = CLOSING)
     \<and> (\<forall>i < length (sockets s). i \<noteq> c \<longrightarrow> sockets s ! i = CLOSED)
     \<and> intervals s = [] \<and> pending s = []"

text \<open>The events other than the \<open>open\<close> and the \<open>close\<close> of socket \<open>c\<close>.\<close>

fun spares :: "nat \<Rightarrow> client_event \<Rightarrow> bool" where
  "spares c (SocketOpen c' now) = (c' \<noteq> c)"
| "spares c (SocketClose c') = (c' \<noteq> c)"
| "spares c e = True"


text \<open>
  A run in which a heartbeat send throws: socket 0 opens at 0, the heartbeat at 5000 fails
  (the \<open>catch\<close> closes the socket and requests a reconnect), the \<open>close\<close> event requests
  another, both timers expire, and the two sockets they create open at 9000 and 9001.
\<close>

definition double_reconnect :: "client_event list" where
  "double_reconnect =
     [SocketOpen 0 0, IntervalFire 1 5000 False, SocketClose 0, TimeoutFire 3 True,
      TimeoutFire 4 True, SocketOpen 1 9000, SocketOpen 2 9001]"

text \<open>
  After that, silence for 20000 ms: the four interval timers expire on time (those of
  socket 1 started at 9000, those of socket 2 at 9001), every send returns, and no message
  and no other event comes.
\<close>

definition silent_ticks :: "client_event list" where
  "silent_ticks =
     [IntervalFire 5 14000 True, IntervalFire 6 14000 True,
      IntervalFire 7 14001 True, IntervalFire 8 14001 True,
      IntervalFire 5 19000 True, IntervalFire 6 19000 True,
      IntervalFire 7 19001 True, IntervalFire 8 19001 True,
      IntervalFire 5 24000 True, IntervalFire 6 24000 True,
      IntervalFire 7 24001 True, IntervalFire 8 24001 True,
      IntervalFire 5 29000 True, IntervalFire 6 29000 True,
      IntervalFire 7 29001 True, IntervalFire 8 29001 True]"

text \<open>The events in which no \<open>ws.send('ping')\<close> throws.\<close>

fun send_returns :: "client_event \<Rightarrow> bool" where
  "send_returns (IntervalFire timer now send_ok) = send_ok"
| "send_returns e = True"

text \<open>
  The parts of the invariant of an effect whose heartbeat sends all returned: every socket
  but the current one is closed; a reconnect timer is pending only while the current
  socket is closed (or there is none), and then only one; the active intervals are the one
  heartbeat and the one check that the current socket's \<open>onopen\<close> started, held in the two
  variables, and that socket is open or closing.
\<close>

definition others_closed :: "client \<Rightarrow> bool" where
  "others_closed s \<longleftrightarrow>
     (\<forall>i < length (sockets s). Some i \<noteq> ws s \<longrightarrow> sockets s ! i = CLOSED)"

definition current_closed :: "client \<Rightarrow> bool" where
  "current_closed s \<longleftrightarrow>
     (\<forall>c. ws s = Some c \<longrightarrow> c < length (sockets s) \<and> sockets s ! c = CLOSED)"

definition timers_of_current :: "client \<Rightarrow> bool" where
  "timers_of_current s \<longleftrightarrow>
     intervals s = [] \<or>
     (\<exists>c hb cc. ws s = Some c \<and> c < length (sockets s)
        \<and> (sockets s ! c = OPEN \<or> sockets s ! c = CLOSING)
        \<and> intervals s = [(hb, Heartbeat, c, 5000), (cc, ConnectionCheck, c, 5000)]
        \<and> heartbeatInterval s = Some hb \<and> connectionCheckInterval s = Some cc
        \<and> hb \<noteq> 0 \<and> cc \<noteq> 0 \<and> hb \<noteq> cc)"

definition one_connection :: "client \<Rightarrow> bool" where
  "one_connection s \<longleftrightarrow>
     0 < next_timer s
     \<and> (\<forall>c. ws s = Some c \<longrightarrow> c < length (sockets s))
     \<and> others_closed s
     \<and> (pending s = [] \<or> ((\<exists>t d. pending s = [(t, d)]) \<and> current_closed s))
     \<and> timers_of_current s"


subsection \<open>Notions for stating the decoding claims\<close>

text \<open>\<open>data.commit?.record?.text\<close>, \<open>data.did\<close> and \<open>data.commit?.rkey\<close> of a parsed payload that is not \<open>null\<close>.\<close>

definition text_of :: "'n json \<Rightarrow> 'n json option" where
  "text_of data = opt_prop ''text'' (opt_prop ''record'' (opt_prop ''commit'' (Some data)))"

definition did_of :: "'n json \<Rightarrow> 'n json option" where
  "did_of data = opt_prop ''did'' (Some data)"

definition rkey_of :: "'n json \<Rightarrow> 'n json option" where
  "rkey_of data = opt_prop ''rkey'' (opt_prop ''commit'' (Some data))"

definition permalink :: "string \<Rightarrow> string \<Rightarrow> string" where
  "permalink did rkey = ''https://bsky.app/profile/'' @ did @ ''/post/'' @ rkey"

text \<open>The two early returns of \<open>createMessage\<close>.\<close>

definition scene_ready :: "client \<Rightarrow> bool" where
  "scene_ready s \<longleftrightarrow> sceneRef s \<and> texturePoolRef s \<and> textWrapperRef s"

definition discarded :: "draws \<Rightarrow> client \<Rightarrow> bool" where
  "discarded dr s \<longleftrightarrow>
     choose_wall dr \<noteq> - 1 \<and> discardFraction s > 0 \<and> discard_draw dr < discardFraction s"

text \<open>
  The message object for a payload whose text is the string \<open>str\<close>: its permalink is there
  when the message is special and both identifiers are truthy.
\<close>

definition decoded :: "'n platform \<Rightarrow> draws \<Rightarrow> client \<Rightarrow> 'n json \<Rightarrow> string \<Rightarrow> message_object" where
  "decoded P dr s data str =
     \<lparr>text_lines = take 10 (wrapText (measureText P) str 650),
      special = (choose_wall dr = - 1),
      blueSkyUrl =
        (if choose_wall dr = - 1 \<and> truthy P (did_of data) \<and> truthy P (rkey_of data)
         then Some (permalink (template_text P (the (did_of data)))
                              (template_text P (the (rkey_of data))))
         else None)\<rparr>"


section \<open>Upstream reconnection\<close>

lemma setTimeout_calls_step:
  "setTimeout_calls (relay_step ts e s) =
     setTimeout_calls s @ (if e = JetClose then [5000] else [])"
proof (cases e)
  case (JetMessage d)
  have "setTimeout_calls (foldl (forward m) s cs) = setTimeout_calls s" for m cs
    by (induction cs arbitrary: s) (simp_all add: forward_def send_def)
  with JetMessage show ?thesis by (simp add: on_jetstream_message_def)
qed (simp_all add: on_jetstream_close_def on_jetstream_error_def setTimeout_def
      connectToJetstream_def on_connection_def on_client_close_def on_client_error_def
      Let_def split: option.splits list.splits)

lemma setTimeout_calls_run:
  "setTimeout_calls (relay_run ts evs s) =
     setTimeout_calls s @ replicate (length (filter (\<lambda>e. e = JetClose) evs)) 5000"
  by (induction evs arbitrary: s) (simp_all add: setTimeout_calls_step)

lemma foldl_forward_upstream:
  "upstream_sockets (foldl (forward m) s cs) = upstream_sockets s"
  "timeouts (foldl (forward m) s cs) = timeouts s"
  by (induction cs arbitrary: s) (simp_all add: forward_def send_def)

text \<open>Every pending timer has been requested by a \<open>close\<close> and becomes one new socket.\<close>

lemma reconnects_step:
  "upstream_sockets (relay_step ts e s) + length (timeouts (relay_step ts e s)) =
     upstream_sockets s + length (timeouts s) + (if e = JetClose then 1 else 0)"
  by (cases e)
     (simp_all add: on_jetstream_message_def foldl_forward_upstream on_jetstream_close_def
        on_jetstream_error_def setTimeout_def connectToJetstream_def on_connection_def
        on_client_close_def on_client_error_def Let_def split: option.splits list.splits)

lemma reconnects_run:
  "upstream_sockets (relay_run ts evs s) + length (timeouts (relay_run ts evs s)) =
     upstream_sockets s + length (timeouts s) + length (filter (\<lambda>e. e = JetClose) evs)"
  by (induction evs arbitrary: s) (simp_all add: reconnects_step)

lemma timer_reconnects:
  "jetstreamConnection (relay_step ts TimerFire (relay_step ts JetClose s)) = Some CONNECTING"
  "upstream_sockets (relay_step ts TimerFire (relay_step ts JetClose s)) = Suc (upstream_sockets s)"
  "timeouts (relay_step ts TimerFire (relay_step ts JetClose s)) = tl (timeouts s @ [5000])"
  by (simp_all add: on_jetstream_close_def setTimeout_def connectToJetstream_def
        split: list.splits)

lemma timer_is_connect:
  "relay_step ts TimerFire s =
     (if timeouts s = [] then s else connectToJetstream (s\<lparr>timeouts := tl (timeouts s)\<rparr>))"
  by (simp split: list.splits)

text \<open>
  C2. Over any sequence of server events, the reconnect timers requested are exactly one
  per upstream \<open>close\<close> event, each with delay 5000 ms, whatever the state (no attempt
  counter, no growing delay); a single \<open>close\<close> adds exactly one pending timer. The timer
  is the reconnect: when it expires, \<open>connectToJetstream\<close> runs, which creates one new
  upstream socket, in the connecting state, and nothing else does; so at every moment the
  sockets created and the timers still pending add up to those at the start plus one per
  \<open>close\<close>. The upstream \<open>error\<close> handler changes nothing.
\<close>

theorem upstream_one_reconnect_per_close:
  "setTimeout_calls (relay_run ts evs s) =
     setTimeout_calls s @ replicate (length (filter (\<lambda>e. e = JetClose) evs)) 5000
   \<and> timeouts (relay_step ts JetClose s) = timeouts s @ [5000]
   \<and> upstream_sockets (relay_step ts JetClose s) = upstream_sockets s
   \<and> relay_step ts TimerFire s =
       (if timeouts s = [] then s else connectToJetstream (s\<lparr>timeouts := tl (timeouts s)\<rparr>))
   \<and> jetstreamConnection (relay_step ts TimerFire (relay_step ts JetClose s)) = Some CONNECTING
   \<and> upstream_sockets (relay_step ts TimerFire (relay_step ts JetClose s)) =
       Suc (upstream_sockets s)
   \<and> timeouts (relay_step ts TimerFire (relay_step ts JetClose s)) = tl (timeouts s @ [5000])
   \<and> upstream_sockets (relay_run ts evs s) + length (timeouts (relay_run ts evs s)) =
       upstream_sockets s + length (timeouts s) + length (filter (\<lambda>e. e = JetClose) evs)
   \<and> relay_step ts JetError s = s"
proof -
  have log: "setTimeout_calls (relay_run ts evs s) =
     setTimeout_calls s @ replicate (length (filter (\<lambda>e. e = JetClose) evs)) 5000"
    by (rule setTimeout_calls_run)
  have close: "timeouts (relay_step ts JetClose s) = timeouts s @ [5000]"
    "upstream_sockets (relay_step ts JetClose s) = upstream_sockets s"
    by (simp_all add: on_jetstream_close_def setTimeout_def)
  have err: "relay_step ts JetError s = s"
    by (simp add: on_jetstream_error_def)
  from log close timer_is_connect [of ts s] timer_reconnects [of ts s] reconnects_run [of ts evs s] err
  show ?thesis by (intro conjI)
qed

text \<open>
  An instance: the upstream socket closes twice before any timer expires; two timers are
  pending, and each expiry creates one socket.
\<close>

theorem upstream_reconnect_run:
  "timeouts (relay_run id [JetClose, JetClose] startup) = [5000, 5000]
   \<and> upstream_sockets (relay_run id [JetClose, JetClose] startup) = 1
   \<and> upstream_sockets (relay_run id [JetClose, JetClose, TimerFire, TimerFire] startup) = 3
   \<and> timeouts (relay_run id [JetClose, JetClose, TimerFire, TimerFire] startup) = []
   \<and> jetstreamConnection (relay_run id [JetClose, JetClose, TimerFire, TimerFire] startup) =
       Some CONNECTING"
proof -
  let ?evs = "[JetClose, JetClose, TimerFire, TimerFire] :: string relay_event list"
  have a: "timeouts (relay_run id [JetClose, JetClose] startup) = [5000, 5000]"
    "upstream_sockets (relay_run id [JetClose, JetClose] startup) = 1"
    "timeouts (relay_run id ?evs startup) = []"
    "jetstreamConnection (relay_run id ?evs startup) = Some CONNECTING"
    by (simp_all add: startup_def on_jetstream_close_def setTimeout_def connectToJetstream_def)
  have s0: "upstream_sockets startup = 1" "timeouts startup = []"
    by (simp_all add: startup_def connectToJetstream_def)
  have n: "length (filter (\<lambda>e. e = JetClose) ?evs) = 2" by simp
  have "upstream_sockets (relay_run id ?evs startup) + length (timeouts (relay_run id ?evs startup)) =
       upstream_sockets startup + length (timeouts startup)
       + length (filter (\<lambda>e. e = JetClose) ?evs)"
    using upstream_one_reconnect_per_close [where ts = id and s = startup and evs = ?evs]
    by blast
  then have b: "upstream_sockets (relay_run id ?evs startup) = 3"
    unfolding a(3) s0 n by simp
  from a b show ?thesis by (intro conjI)
qed

section \<open>Fan-out\<close>

lemma foldl_forward_fields:
  "connectedClients (foldl (forward m) s cs) = connectedClients s"
  "client_state (foldl (forward m) s cs) = client_state s"
  "next_handle (foldl (forward m) s cs) = next_handle s"
  "jetstreamConnection (foldl (forward m) s cs) = jetstreamConnection s"
  "timeouts (foldl (forward m) s cs) = timeouts s"
  by (induction cs arbitrary: s) (simp_all add: forward_def send_def)

lemma foldl_forward_sent:
  "distinct cs \<Longrightarrow>
   sent (foldl (forward m) s cs) h =
     (if h \<in> set cs \<and> client_state s h = OPEN then sent s h @ [m] else sent s h)"
proof (induction cs arbitrary: s)
  case Nil
  then show ?case by simp
next
  case (Cons c cs)
  let ?s' = "forward m s c"
  have st: "client_state ?s' = client_state s"
    by (simp add: forward_def send_def)
  have sn: "sent ?s' h = (if h = c \<and> client_state s c = OPEN then sent s h @ [m] else sent s h)"
    by (simp add: forward_def send_def)
  from Cons.prems have "distinct cs" and "c \<notin> set cs" by simp_all
  with Cons.IH [of ?s'] st sn show ?case by auto
qed

lemma on_jetstream_message_sent:
  "distinct (connectedClients s) \<Longrightarrow>
   sent (on_jetstream_message ts d s) h =
     (if h \<in> set (connectedClients s) \<and> client_state s h = OPEN
      then sent s h @ [ts d] else sent s h)"
  by (simp add: on_jetstream_message_def foldl_forward_sent)

lemma set_delete_set: "set (set_delete h cs) = set cs - {h}"
  by (auto simp: set_delete_def)

lemma relay_ok_step: "relay_ok s \<Longrightarrow> relay_ok (relay_step ts e s)"
proof (cases e)
  case Connection
  assume "relay_ok s"
  then show ?thesis
    using Connection
    by (auto simp: relay_ok_def on_connection_def set_add_def Let_def list_all_iff)
qed (auto simp: relay_ok_def on_jetstream_message_def foldl_forward_fields
      on_jetstream_close_def on_jetstream_error_def setTimeout_def connectToJetstream_def
      on_client_close_def on_client_error_def set_delete_def list_all_iff
      split: option.splits list.splits)

lemma relay_ok_run: "relay_ok s \<Longrightarrow> relay_ok (relay_run ts evs s)"
  by (induction evs arbitrary: s) (simp_all add: relay_ok_step)

lemma relay_ok_startup: "relay_ok startup"
  by (simp add: relay_ok_def startup_def connectToJetstream_def)

lemma sent_step:
  assumes "relay_ok s"
  shows "sent (relay_step ts e s) h =
     (case e of
        JetMessage d \<Rightarrow>
          if h \<in> set (connectedClients s) \<and> client_state s h = OPEN
          then sent s h @ [ts d] else sent s h
      | _ \<Rightarrow> sent s h)"
proof (cases e)
  case (JetMessage d)
  with assms show ?thesis
    by (simp add: on_jetstream_message_sent relay_ok_def)
qed (simp_all add: on_jetstream_close_def on_jetstream_error_def setTimeout_def
      connectToJetstream_def on_connection_def on_client_close_def on_client_error_def
      Let_def split: option.splits list.splits)

lemma sent_run_subseq:
  "relay_ok s \<Longrightarrow>
   \<exists>ds. subseq ds (payloads evs) \<and> sent (relay_run ts evs s) h = sent s h @ map ts ds"
proof (induction evs arbitrary: s)
  case Nil
  then show ?case by (intro exI [of _ "[]"]) simp
next
  case (Cons e es)
  from Cons.prems have ok': "relay_ok (relay_step ts e s)" by (rule relay_ok_step)
  from Cons.IH [OF ok'] obtain ds where
    sub: "subseq ds (payloads es)" and
    eq: "sent (relay_run ts es (relay_step ts e s)) h = sent (relay_step ts e s) h @ map ts ds"
    by blast
  show ?case
  proof (cases "\<exists>d. e = JetMessage d \<and> h \<in> set (connectedClients s) \<and> client_state s h = OPEN")
    case True
    then obtain d where e: "e = JetMessage d"
      and reg: "h \<in> set (connectedClients s)" "client_state s h = OPEN" by blast
    have "sent (relay_step ts e s) h = sent s h @ [ts d]"
      using sent_step [OF Cons.prems, of ts e h] e reg by simp
    with eq sub e show ?thesis
      by (intro exI [of _ "d # ds"]) simp
  next
    case False
    have same: "sent (relay_step ts e s) h = sent s h"
      using sent_step [OF Cons.prems, of ts e h] False by (cases e) auto
    have "subseq ds (payloads (e # es))"
      using sub by (cases e) (auto intro: subseq_Cons')
    with eq same show ?thesis
      by (intro exI [of _ ds]) simp
  qed
qed

lemma retired_step: "retired h s \<Longrightarrow> retired h (relay_step ts e s)"
  by (cases e)
     (auto simp: retired_def on_jetstream_message_def foldl_forward_fields
        on_jetstream_close_def on_jetstream_error_def setTimeout_def connectToJetstream_def
        on_connection_def set_add_def Let_def on_client_close_def on_client_error_def
        set_delete_def split: option.splits list.splits)

lemma retired_sent_run:
  "relay_ok s \<Longrightarrow> retired h s \<Longrightarrow> sent (relay_run ts evs s) h = sent s h"
proof (induction evs arbitrary: s)
  case Nil
  then show ?case by simp
next
  case (Cons e es)
  have "sent (relay_step ts e s) h = sent s h"
    using sent_step [OF Cons.prems(1), of ts e h] Cons.prems(2)
    by (cases e) (auto simp: retired_def)
  moreover have "sent (relay_run ts es (relay_step ts e s)) h = sent (relay_step ts e s) h"
    using Cons.prems by (intro Cons.IH relay_ok_step retired_step)
  ultimately show ?case by simp
qed

lemma unregister_retired:
  assumes "relay_ok s" and "h \<in> set (connectedClients s)"
  shows "retired h (on_client_close h s)" and "retired h (on_client_error h s)"
  using assms
  by (auto simp: retired_def relay_ok_def on_client_close_def on_client_error_def
      set_delete_def list_all_iff)

lemma sent_messages_only:
  "relay_ok s \<Longrightarrow>
   sent (relay_run ts (map JetMessage ds) s) h =
     (if h \<in> set (connectedClients s) \<and> client_state s h = OPEN
      then sent s h @ map ts ds else sent s h)"
proof (induction ds arbitrary: s)
  case Nil
  then show ?case by simp
next
  case (Cons d ds)
  let ?s' = "on_jetstream_message ts d s"
  have ok': "relay_ok ?s'"
    using relay_ok_step [OF Cons.prems, of ts "JetMessage d"] by simp
  have same: "connectedClients ?s' = connectedClients s" "client_state ?s' = client_state s"
    by (simp_all add: on_jetstream_message_def foldl_forward_fields)
  have one: "sent ?s' h =
      (if h \<in> set (connectedClients s) \<and> client_state s h = OPEN
       then sent s h @ [ts d] else sent s h)"
    using Cons.prems by (simp add: on_jetstream_message_sent relay_ok_def)
  from Cons.IH [OF ok'] same one show ?case by simp
qed

text \<open>
  C1. In a server state as the handlers keep it (\<open>relay_ok\<close>, which holds at startup and
  after every relay_event):
  \<^item> the upstream \<open>message\<close> handler appends the payload's text to the \<open>send\<close> log of
    exactly the members of \<open>connectedClients\<close> whose \<open>readyState\<close> is \<open>OPEN\<close>; every other
    log is unchanged, and the set itself is unchanged (members in another state are
    skipped, not removed);
  \<^item> a run of upstream messages appends their texts, in the order of arrival, to the log of
    each open member; over any trace of events, what a handle is sent is the text of a
    subsequence of the payloads received from upstream, in their order of arrival;
  \<^item> after the \<open>close\<close> or the \<open>error\<close> handler of a registered handle has relay_run, no later
    relay_event ever sends to that handle.
\<close>

theorem fanout_to_open_members_in_order:
  assumes "relay_ok s"
  shows "sent (on_jetstream_message ts d s) h =
           (if h \<in> set (connectedClients s) \<and> client_state s h = OPEN
            then sent s h @ [ts d] else sent s h)
       \<and> connectedClients (on_jetstream_message ts d s) = connectedClients s
       \<and> sent (relay_run ts (map JetMessage ps) s) h =
           (if h \<in> set (connectedClients s) \<and> client_state s h = OPEN
            then sent s h @ map ts ps else sent s h)
       \<and> (\<exists>ds. subseq ds (payloads evs) \<and> sent (relay_run ts evs s) h = sent s h @ map ts ds)
       \<and> (h \<in> set (connectedClients s) \<longrightarrow>
             sent (relay_run ts evs (relay_step ts (ClientClose h) s)) h = sent s h
           \<and> sent (relay_run ts evs (relay_step ts (ClientError h) s)) h = sent s h)
       \<and> relay_ok (relay_run ts evs s)"
proof -
  have one: "sent (on_jetstream_message ts d s) h =
           (if h \<in> set (connectedClients s) \<and> client_state s h = OPEN
            then sent s h @ [ts d] else sent s h)"
    using assms by (simp add: on_jetstream_message_sent relay_ok_def)
  have kept: "connectedClients (on_jetstream_message ts d s) = connectedClients s"
    by (simp add: on_jetstream_message_def foldl_forward_fields)
  have ordered: "\<exists>ds. subseq ds (payloads evs) \<and> sent (relay_run ts evs s) h = sent s h @ map ts ds"
    using assms by (rule sent_run_subseq)
  have inv: "relay_ok (relay_run ts evs s)"
    using assms by (rule relay_ok_run)
  have gone: "sent (relay_run ts evs (relay_step ts (ClientClose h) s)) h = sent s h
         \<and> sent (relay_run ts evs (relay_step ts (ClientError h) s)) h = sent s h"
    if reg: "h \<in> set (connectedClients s)"
  proof -
    have c: "sent (relay_run ts evs (relay_step ts (ClientClose h) s)) h = sent (relay_step ts (ClientClose h) s) h"
      using relay_ok_step [OF assms, of ts "ClientClose h"] unregister_retired(1) [OF assms reg]
      by (intro retired_sent_run) simp_all
    have e: "sent (relay_run ts evs (relay_step ts (ClientError h) s)) h = sent (relay_step ts (ClientError h) s) h"
      using relay_ok_step [OF assms, of ts "ClientError h"] unregister_retired(2) [OF assms reg]
      by (intro retired_sent_run) simp_all
    from c e show ?thesis
      by (simp add: on_client_close_def on_client_error_def)
  qed
  have run: "sent (relay_run ts (map JetMessage ps) s) h =
           (if h \<in> set (connectedClients s) \<and> client_state s h = OPEN
            then sent s h @ map ts ps else sent s h)"
    using assms by (rule sent_messages_only)
  from one kept run ordered gone inv show ?thesis by blast
qed

text \<open>
  An instance: two clients connect, the second one's socket leaves the \<open>OPEN\<close> state, and
  two payloads arrive; then the first client closes and a third payload arrives.
\<close>

theorem fanout_witness:
  "relay_ok startup
   \<and> sent (relay_run id [Connection, Connection, Transport 1 CLOSING,
                    JetMessage ''a'', JetMessage ''b''] startup) 0 = [''a'', ''b'']
   \<and> sent (relay_run id [Connection, Connection, Transport 1 CLOSING,
                    JetMessage ''a'', JetMessage ''b''] startup) 1 = []
   \<and> connectedClients (relay_run id [Connection, Connection, Transport 1 CLOSING,
                    JetMessage ''a'', JetMessage ''b''] startup) = [0, 1]
   \<and> sent (relay_run id [JetMessage ''c'']
        (relay_step id (ClientClose 0)
          (relay_run id [Connection, Connection, Transport 1 CLOSING,
                   JetMessage ''a'', JetMessage ''b''] startup))) 0 = [''a'', ''b'']"
proof -
  let ?s = "relay_run id [Connection, Connection, Transport 1 CLOSING,
                    JetMessage ''a'', JetMessage ''b''] startup"
  have ok: "relay_ok startup" by (rule relay_ok_startup)
  have s0: "sent ?s 0 = [''a'', ''b'']" and s1: "sent ?s 1 = []"
    and cs: "connectedClients ?s = [0, 1]"
    by (simp_all add: startup_def connectToJetstream_def on_connection_def set_add_def
          on_jetstream_message_def forward_def send_def Let_def)
  have oks: "relay_ok ?s" using ok by (rule relay_ok_run)
  from fanout_to_open_members_in_order [OF oks, where ts = id and d = "''c''" and h = 0
      and evs = "[JetMessage ''c'']" and ps = "[]"] cs s0
  have "sent (relay_run id [JetMessage ''c''] (relay_step id (ClientClose 0) ?s)) 0 = [''a'', ''b'']"
    by simp
  with ok s0 s1 cs show ?thesis by simp
qed

section \<open>The health endpoint\<close>

text \<open>
  C9. The handler registered for \<open>/health\<close> would answer with status \<open>ok\<close>, the size of
  \<open>connectedClients\<close> and whether the upstream socket is \<open>OPEN\<close>, but no request reaches
  it: the catch-all route registered before it answers every \<open>GET\<close>, so a request for
  \<open>/health\<close> is answered with a file (\<open>dist/index.html\<close>, or \<open>dist/health\<close> if there is
  one), and no request at all is answered with the health body.
\<close>

theorem health_route_shadowed:
  "handle_request dist_has s \<lparr>req_method = GET, req_path = ''/health''\<rparr> =
     (if dist_has ''/health'' then StaticFile ''/health'' else SendFile ''dist/index.html'')
   \<and> handle_request dist_has s req \<noteq> Json body
   \<and> health s = \<lparr>status = ''ok'', clients = length (connectedClients s),
                  jetstream = (jetstreamConnection s = Some OPEN)\<rparr>"
proof -
  have "handle_request dist_has s req \<noteq> Json body"
    by (simp add: handle_request_def app_def serve_static_def spa_fallback_def
          health_route_def)
  then show ?thesis
    by (simp add: handle_request_def app_def serve_static_def spa_fallback_def is_get_def
          health_def)
qed

section \<open>What the message handler leaves unchanged\<close>

lemmas handler_defs =
  scheduleReconnect_def connectWebSocket_def reconnect_callback_def onopen_def heartbeat_def
  connectionCheck_def onclose_def onerror_def cleanup_def ws_close_def clearTimeout_def
  clearInterval_def set_socket_def ws_is_open_def

lemma createMessage_conn:
  "sockets (fst (createMessage P dr t pd s)) = sockets s"
  "scheduled (fst (createMessage P dr t pd s)) = scheduled s"
  "shouldReconnect (fst (createMessage P dr t pd s)) = shouldReconnect s"
  "pending (fst (createMessage P dr t pd s)) = pending s"
  "intervals (fst (createMessage P dr t pd s)) = intervals s"
  "ws (fst (createMessage P dr t pd s)) = ws s"
  "reconnectAttempts (fst (createMessage P dr t pd s)) = reconnectAttempts s"
  "next_timer (fst (createMessage P dr t pd s)) = next_timer s"
  "heartbeatInterval (fst (createMessage P dr t pd s)) = heartbeatInterval s"
  "connectionCheckInterval (fst (createMessage P dr t pd s)) = connectionCheckInterval s"
  "reconnectTimeout (fst (createMessage P dr t pd s)) = reconnectTimeout s"
  "lastMessageTime (fst (createMessage P dr t pd s)) = lastMessageTime s"
  by (simp_all add: createMessage_def Let_def split: option.splits json.splits sum.splits)

lemma report_conn:
  "sockets (report r) = sockets (fst r)"
  "scheduled (report r) = scheduled (fst r)"
  "shouldReconnect (report r) = shouldReconnect (fst r)"
  "pending (report r) = pending (fst r)"
  "intervals (report r) = intervals (fst r)"
  "ws (report r) = ws (fst r)"
  "reconnectAttempts (report r) = reconnectAttempts (fst r)"
  "next_timer (report r) = next_timer (fst r)"
  "heartbeatInterval (report r) = heartbeatInterval (fst r)"
  "connectionCheckInterval (report r) = connectionCheckInterval (fst r)"
  "reconnectTimeout (report r) = reconnectTimeout (fst r)"
  "lastMessageTime (report r) = lastMessageTime (fst r)"
  by (simp_all add: report_def split: prod.splits option.splits)

lemma onmessage_conn:
  "sockets (fst (onmessage P now dr d s)) = sockets s"
  "scheduled (fst (onmessage P now dr d s)) = scheduled s"
  "shouldReconnect (fst (onmessage P now dr d s)) = shouldReconnect s"
  "pending (fst (onmessage P now dr d s)) = pending s"
  "intervals (fst (onmessage P now dr d s)) = intervals s"
  "ws (fst (onmessage P now dr d s)) = ws s"
  "reconnectAttempts (fst (onmessage P now dr d s)) = reconnectAttempts s"
  "next_timer (fst (onmessage P now dr d s)) = next_timer s"
  "heartbeatInterval (fst (onmessage P now dr d s)) = heartbeatInterval s"
  "connectionCheckInterval (fst (onmessage P now dr d s)) = connectionCheckInterval s"
  "reconnectTimeout (fst (onmessage P now dr d s)) = reconnectTimeout s"
  "lastMessageTime (fst (onmessage P now dr d s)) = now"
  by (simp_all add: onmessage_def Let_def createMessage_conn split: option.splits sum.splits)

lemmas message_conn = report_conn onmessage_conn

section \<open>Downstream reconnection with backoff\<close>










section \<open>Decoding\<close>

text \<open>Wrapping only breaks the text at spaces: the lines, joined by spaces, are the text.\<close>

lemma split_not_Nil: "split sep s \<noteq> []"
  by (induction s) (auto split: list.splits)

lemma join_Cons_Cons: "join sep ((x # w) # rest) = x # join sep (w # rest)"
  by (cases rest) simp_all

lemma join_Cons_nonempty: "rest \<noteq> [] \<Longrightarrow> join sep (w # rest) = w @ sep @ join sep rest"
  by (cases rest) simp_all

lemma join_split: "join [sep] (split sep s) = s"
proof (induction s)
  case Nil
  then show ?case by simp
next
  case (Cons c cs)
  show ?case
  proof (cases "c = sep")
    case True
    with Cons show ?thesis by (simp add: join_Cons_nonempty split_not_Nil)
  next
    case False
    obtain w rest where sp: "split sep cs = w # rest"
      using split_not_Nil [of sep cs] by (cases "split sep cs") auto
    with False Cons show ?thesis by (simp add: join_Cons_Cons)
  qed
qed

lemma join_snoc_merge:
  "join sep (lines @ [cur, tl_line]) = join sep (lines @ [cur @ sep @ tl_line])"
  by (induction sep lines rule: join.induct) simp_all

lemma join_wrap_loop:
  "join '' '' (wrap_loop width maxWidth cur lines words) =
   join '' '' (lines @ [join '' '' (cur # words)])"
proof (induction words arbitrary: cur lines)
  case Nil
  then show ?case by simp
next
  case (Cons word words)
  have merge: "join '' '' ((cur @ '' '' @ word) # words) = join '' '' (cur # word # words)"
    by (cases words) simp_all
  show ?case
  proof (cases "width (cur @ '' '' @ word) < maxWidth")
    case True
    with Cons.IH [of "cur @ '' '' @ word" lines] merge show ?thesis by simp
  next
    case False
    with Cons.IH [of word "lines @ [cur]"] join_snoc_merge [of "'' ''" lines cur "join '' '' (word # words)"]
    show ?thesis by simp
  qed
qed

lemma join_wrapText: "join '' '' (wrapText width text maxWidth) = text"
proof -
  obtain w rest where sp: "split CHR '' '' text = w # rest"
    using split_not_Nil [of "CHR '' ''" "text"] by (cases "split CHR '' '' text") auto
  have "join '' '' (wrapText width text maxWidth) = join '' '' (w # rest)"
    using sp by (simp add: wrapText_def join_wrap_loop)
  also have "\<dots> = text"
    using join_split [of "CHR '' ''" "text"] sp by simp
  finally show ?thesis .
qed

lemma get_prop_not_null:
  "v \<noteq> JNull \<Longrightarrow> get_prop k (Some v) = Inr (opt_prop k (Some v))"
  by (cases v) simp_all

lemma opt_prop_Some_object:
  "opt_prop k v = Some x \<Longrightarrow> \<exists>kvs. v = Some (JObject kvs)"
  by (cases "(k, v)" rule: opt_prop.cases) simp_all

lemma text_of_object:
  assumes "text_of data = Some x"
  shows "\<exists>kvs. data = JObject kvs"
proof -
  from assms obtain r where "opt_prop ''record'' (opt_prop ''commit'' (Some data)) = Some r"
    unfolding text_of_def by (auto dest: opt_prop_Some_object)
  then obtain c where "opt_prop ''commit'' (Some data) = Some c"
    by (auto dest: opt_prop_Some_object)
  then show ?thesis by (auto dest: opt_prop_Some_object)
qed

lemma truthy_Some: "truthy P v \<Longrightarrow> \<exists>x. v = Some x"
  by (cases v) simp_all

lemma make_url_object:
  assumes "truthy P (text_of (JObject kvs))"
  shows "make_url P (Some (JObject kvs)) wall =
     Inr (if wall = - 1 \<and> truthy P (did_of (JObject kvs)) \<and> truthy P (rkey_of (JObject kvs))
          then Some (permalink (template_text P (the (did_of (JObject kvs))))
                               (template_text P (the (rkey_of (JObject kvs)))))
          else None)"
proof (cases "wall = - 1 \<and> truthy P (did_of (JObject kvs)) \<and> truthy P (rkey_of (JObject kvs))")
  case True
  then obtain a b where "did_of (JObject kvs) = Some a" "rkey_of (JObject kvs) = Some b"
    using truthy_Some [of P "did_of (JObject kvs)"] truthy_Some [of P "rkey_of (JObject kvs)"]
    by blast
  with True assms show ?thesis
    by (simp add: make_url_def text_of_def did_of_def rkey_of_def permalink_def)
next
  case False
  with assms show ?thesis
    by (auto simp: make_url_def text_of_def did_of_def rkey_of_def split: option.splits)
qed

lemma createMessage_string:
  assumes "truthy P (text_of (JObject kvs))"
  shows "createMessage P dr (Some (JString str)) (Some (JObject kvs)) s =
     (if scene_ready s \<and> \<not> discarded dr s
      then (s\<lparr>messageObjects := messageObjects s @ [decoded P dr s (JObject kvs) str]\<rparr>, None)
      else (s, None))"
  using make_url_object [OF assms, of "choose_wall dr"]
  by (simp add: createMessage_def scene_ready_def discarded_def decoded_def Let_def)

lemma createMessage_not_string:
  assumes "\<And>str. v \<noteq> JString str"
  shows "createMessage P dr (Some v) pd s =
     (if scene_ready s \<and> \<not> discarded dr s then (s, Some TypeError) else (s, None))"
proof (cases v)
  case (JString x)
  with assms show ?thesis by blast
qed (simp_all add: createMessage_def scene_ready_def discarded_def Let_def)

lemma stamp_irrelevant:
  "scene_ready (s\<lparr>lastMessageTime := now\<rparr>) = scene_ready s"
  "discarded dr (s\<lparr>lastMessageTime := now\<rparr>) = discarded dr s"
  "decoded P dr (s\<lparr>lastMessageTime := now\<rparr>) data str = decoded P dr s data str"
  by (simp_all add: scene_ready_def discarded_def decoded_def)

lemma onmessage_parsed:
  assumes "JSON_parse P d = Some data" and "data \<noteq> JNull"
  shows "onmessage P now dr d s =
     (if truthy P (text_of data)
      then createMessage P dr (text_of data) (Some data) (s\<lparr>lastMessageTime := now\<rparr>)
      else (s\<lparr>lastMessageTime := now\<rparr>, None))"
  using assms by (simp add: onmessage_def get_prop_not_null text_of_def Let_def)

text \<open>
  C5, as the code has it. For a payload that parses to a value other than \<open>null\<close>:
  \<^item> without a truthy \<open>commit.record.text\<close>, the handler only stamps the time;
  \<^item> with a non-empty string there, scene refs set and no random discard, exactly one message
    object is appended, with the first ten wrapped lines of that string;
  \<^item> with a non-empty string there, but a ref unset or the random discard, nothing is made;
  \<^item> with a truthy text that is not a string, \<open>text.split\<close> throws a \<open>TypeError\<close>;
  \<^item> the lines of the object, before the cut to ten, joined by spaces give that string back;
  \<^item> the object has a permalink exactly when it is special (\<open>wall = -1\<close>) and \<open>did\<close> and
    \<open>commit.rkey\<close> are both truthy; for string identifiers it is
    \<open>https://bsky.app/profile/<did>/post/<rkey>\<close>.
\<close>

theorem decode_payload:
  assumes "JSON_parse P d = Some data" and "data \<noteq> JNull"
  shows "(\<not> truthy P (text_of data) \<longrightarrow>
            onmessage P now dr d s = (s\<lparr>lastMessageTime := now\<rparr>, None))
       \<and> (text_of data = Some (JString str) \<and> str \<noteq> [] \<and> scene_ready s \<and> \<not> discarded dr s \<longrightarrow>
            onmessage P now dr d s =
              (s\<lparr>lastMessageTime := now,
                 messageObjects := messageObjects s @ [decoded P dr s data str]\<rparr>, None))
       \<and> (text_of data = Some (JString str) \<and> str \<noteq> [] \<and> (\<not> scene_ready s \<or> discarded dr s) \<longrightarrow>
            onmessage P now dr d s = (s\<lparr>lastMessageTime := now\<rparr>, None))
       \<and> (truthy P (text_of data) \<and> (\<forall>str. text_of data \<noteq> Some (JString str))
            \<and> scene_ready s \<and> \<not> discarded dr s \<longrightarrow>
            onmessage P now dr d s = (s\<lparr>lastMessageTime := now\<rparr>, Some TypeError))
       \<and> (blueSkyUrl (decoded P dr s data str) \<noteq> None \<longleftrightarrow>
            choose_wall dr = - 1 \<and> truthy P (did_of data) \<and> truthy P (rkey_of data))
       \<and> (did_of data = Some (JString a) \<and> rkey_of data = Some (JString b)
            \<and> a \<noteq> [] \<and> b \<noteq> [] \<and> choose_wall dr = - 1 \<longrightarrow>
            blueSkyUrl (decoded P dr s data str) =
              Some (''https://bsky.app/profile/'' @ a @ ''/post/'' @ b))
       \<and> text_lines (decoded P dr s data str) = take 10 (wrapText (measureText P) str 650)
       \<and> join '' '' (wrapText (measureText P) str 650) = str"
proof -
  note om = onmessage_parsed [OF assms, of now dr s]
  have one: "onmessage P now dr d s = (s\<lparr>lastMessageTime := now\<rparr>, None)"
    if "\<not> truthy P (text_of data)"
    using that om by simp
  have str: "onmessage P now dr d s =
      (if scene_ready s \<and> \<not> discarded dr s
       then (s\<lparr>lastMessageTime := now,
               messageObjects := messageObjects s @ [decoded P dr s data str]\<rparr>, None)
       else (s\<lparr>lastMessageTime := now\<rparr>, None))"
    if t: "text_of data = Some (JString str)" and ne: "str \<noteq> []"
  proof -
    from t obtain kvs where obj: "data = JObject kvs"
      using text_of_object by blast
    have tr: "truthy P (text_of (JObject kvs))"
      using t ne obj by simp
    have "onmessage P now dr d s =
        createMessage P dr (Some (JString str)) (Some (JObject kvs)) (s\<lparr>lastMessageTime := now\<rparr>)"
      using om t ne obj by simp
    also have "\<dots> = (if scene_ready s \<and> \<not> discarded dr s
       then (s\<lparr>lastMessageTime := now,
               messageObjects := messageObjects s @ [decoded P dr s data str]\<rparr>, None)
       else (s\<lparr>lastMessageTime := now\<rparr>, None))"
      unfolding createMessage_string [OF tr] obj stamp_irrelevant by simp
    finally show ?thesis .
  qed
  have other: "onmessage P now dr d s = (s\<lparr>lastMessageTime := now\<rparr>, Some TypeError)"
    if tr: "truthy P (text_of data)" and ns: "\<forall>str. text_of data \<noteq> Some (JString str)"
      and rd: "scene_ready s" "\<not> discarded dr s"
  proof -
    from tr obtain v where v: "text_of data = Some v" by (blast dest: truthy_Some)
    with ns have "\<And>str. v \<noteq> JString str" by simp
    from createMessage_not_string [OF this, of P dr "Some data" "s\<lparr>lastMessageTime := now\<rparr>"]
    show ?thesis
      using om tr v rd unfolding stamp_irrelevant by simp
  qed
  have url: "blueSkyUrl (decoded P dr s data str) \<noteq> None \<longleftrightarrow>
      choose_wall dr = - 1 \<and> truthy P (did_of data) \<and> truthy P (rkey_of data)"
    by (simp add: decoded_def)
  have link: "blueSkyUrl (decoded P dr s data str) =
      Some (''https://bsky.app/profile/'' @ a @ ''/post/'' @ b)"
    if "did_of data = Some (JString a)" "rkey_of data = Some (JString b)"
       "a \<noteq> []" "b \<noteq> []" "choose_wall dr = - 1"
    using that by (simp add: decoded_def permalink_def)
  have lines: "text_lines (decoded P dr s data str) = take 10 (wrapText (measureText P) str 650)"
    by (simp add: decoded_def)
  from one str other url link lines join_wrapText [of "measureText P" str 650]
  show ?thesis by simp
qed

subsection \<open>Concrete payloads\<close>

lemma sample_texts:
  "JSON_parse sample_platform post_hi_text = Some post_hi"
  "JSON_parse sample_platform post_hello_text = Some post_hello"
  "JSON_parse sample_platform ''{}'' = Some (JObject [])"
  "JSON_parse sample_platform ''null'' = Some JNull"
  "JSON_parse sample_platform ''ping'' = None"
  by (simp_all add: sample_platform_def sample_parse_def post_hi_text_def post_hello_text_def)

lemma sample_posts:
  "text_of post_hi = Some (JString ''hi'')" "did_of post_hi = Some (JString ''abc'')"
  "rkey_of post_hi = Some (JString ''xyz'')"
  "text_of post_hello = Some (JString ''hello'')" "did_of post_hello = None"
  "rkey_of post_hello = None" "text_of (JObject []) = None"
  by (simp_all add: text_of_def did_of_def rkey_of_def post_hi_def post_hello_def)

lemma sample_wrap:
  "wrapText (measureText sample_platform) ''hi'' 650 = [''hi'']"
  "wrapText (measureText sample_platform) ''hello'' 650 = [''hello'']"
  by (simp_all add: wrapText_def sample_platform_def)

lemma sample_walls:
  "choose_wall \<lparr>wall_floor = 4, discard_draw = x\<rparr> = - 1"
  "choose_wall \<lparr>wall_floor = 0, discard_draw = x\<rparr> = 0"
  by (simp_all add: choose_wall_def)

lemma sample_discards:
  "\<not> discarded \<lparr>wall_floor = 4, discard_draw = 0\<rparr> (mount True 0 0)"
  "\<not> discarded \<lparr>wall_floor = 0, discard_draw = 0\<rparr> (mount True 0 0)"
  "discarded \<lparr>wall_floor = 0, discard_draw = 0.2\<rparr> (mount True 0 0.5)"
  unfolding discarded_def sample_walls by (simp_all add: mount_def connectWebSocket_def)

lemma sample_ready:
  "scene_ready (mount True 0 x)" "discardFraction (mount True 0 x) = x"
  "messageObjects (mount True 0 x) = []"
  by (simp_all add: scene_ready_def mount_def connectWebSocket_def)

theorem decode_payload_witness:
  "JSON_parse sample_platform post_hi_text = Some post_hi \<and> post_hi \<noteq> JNull
   \<and> messageObjects (fst (onmessage sample_platform 5 \<lparr>wall_floor = 4, discard_draw = 0\<rparr>
         post_hi_text (mount True 0 0))) =
       [\<lparr>text_lines = [''hi''], special = True,
         blueSkyUrl = Some ''https://bsky.app/profile/abc/post/xyz''\<rparr>]
   \<and> messageObjects (fst (onmessage sample_platform 5 \<lparr>wall_floor = 4, discard_draw = 0\<rparr>
         post_hello_text (mount True 0 0))) =
       [\<lparr>text_lines = [''hello''], special = True, blueSkyUrl = None\<rparr>]
   \<and> onmessage sample_platform 5 \<lparr>wall_floor = 4, discard_draw = 0\<rparr> ''{}'' (mount True 0 0) =
       ((mount True 0 0)\<lparr>lastMessageTime := 5\<rparr>, None)"
proof -
  let ?dr = "\<lparr>wall_floor = 4, discard_draw = 0\<rparr>"
  let ?m = "mount True 0 0"
  have nd: "\<not> discarded ?dr ?m"
    by (rule sample_discards)
  have w: "choose_wall ?dr = - 1" by (rule sample_walls)
  have hi: "post_hi \<noteq> JNull" and hello: "post_hello \<noteq> JNull"
    by (simp_all add: post_hi_def post_hello_def)
  have a: "messageObjects (fst (onmessage sample_platform 5 ?dr post_hi_text ?m)) =
       [\<lparr>text_lines = [''hi''], special = True,
         blueSkyUrl = Some ''https://bsky.app/profile/abc/post/xyz''\<rparr>]"
    using decode_payload [OF sample_texts(1) hi, where str = "''hi''" and s = ?m and dr = ?dr
            and now = 5 and a = "''abc''" and b = "''xyz''"] nd
    unfolding decoded_def w
    by (simp add: sample_posts sample_ready sample_wrap permalink_def)
  have b: "messageObjects (fst (onmessage sample_platform 5 ?dr post_hello_text ?m)) =
       [\<lparr>text_lines = [''hello''], special = True, blueSkyUrl = None\<rparr>]"
    using decode_payload [OF sample_texts(2) hello, where str = "''hello''" and s = ?m and dr = ?dr
            and now = 5 and a = "''abc''" and b = "''xyz''"] nd
    unfolding decoded_def w
    by (simp add: sample_posts sample_ready sample_wrap)
  have c: "onmessage sample_platform 5 ?dr ''{}'' ?m = (?m\<lparr>lastMessageTime := 5\<rparr>, None)"
    using decode_payload [OF sample_texts(3), where str = "''x''" and s = ?m and dr = ?dr
            and now = 5 and a = "''abc''" and b = "''xyz''"]
    by (simp add: sample_posts)
  from sample_texts(1) hi a b c show ?thesis by (intro conjI)
qed

text \<open>
  The claim as stated fails: a post with text, \<open>did\<close> and \<open>rkey\<close> that lands on a wall
  (\<open>wall = 0\<close>) gets a message object without permalink; and with \<open>discardFraction = 0.5\<close>
  and a draw of 0.2 the same post yields no object at all.
\<close>

theorem permalink_needs_special_message:
  "messageObjects (fst (onmessage sample_platform 5 \<lparr>wall_floor = 0, discard_draw = 0\<rparr>
         post_hi_text (mount True 0 0))) =
       [\<lparr>text_lines = [''hi''], special = False, blueSkyUrl = None\<rparr>]
   \<and> messageObjects (fst (onmessage sample_platform 5 \<lparr>wall_floor = 0, discard_draw = 0.2\<rparr>
         post_hi_text (mount True 0 0.5))) = []"
proof -
  have hi: "post_hi \<noteq> JNull" by (simp add: post_hi_def)
  have tr: "truthy sample_platform (text_of post_hi)" by (simp add: sample_posts)
  have om: "onmessage sample_platform 5 dr post_hi_text s =
      createMessage sample_platform dr (Some (JString ''hi'')) (Some post_hi)
        (s\<lparr>lastMessageTime := 5\<rparr>)" for dr s
    using onmessage_parsed [OF sample_texts(1) hi, of 5 dr s] tr by (simp add: sample_posts)
  have cm: "createMessage sample_platform dr (Some (JString ''hi'')) (Some post_hi) s =
     (if scene_ready s \<and> \<not> discarded dr s
      then (s\<lparr>messageObjects := messageObjects s @ [decoded sample_platform dr s post_hi ''hi'']\<rparr>, None)
      else (s, None))" for dr s
    using createMessage_string [of sample_platform _ dr "''hi''" s] tr
    by (simp add: post_hi_def)
  have a: "messageObjects (fst (onmessage sample_platform 5 \<lparr>wall_floor = 0, discard_draw = 0\<rparr>
         post_hi_text (mount True 0 0))) =
       [\<lparr>text_lines = [''hi''], special = False, blueSkyUrl = None\<rparr>]"
    unfolding om cm stamp_irrelevant decoded_def sample_walls
    using sample_discards(2) by (simp add: sample_ready sample_wrap)
  have b: "messageObjects (fst (onmessage sample_platform 5 \<lparr>wall_floor = 0, discard_draw = 0.2\<rparr>
         post_hi_text (mount True 0 0.5))) = []"
    unfolding om cm stamp_irrelevant
    using sample_discards(3) by (simp add: sample_ready)
  from a b show ?thesis by (intro conjI)
qed

section \<open>The message handler\<close>

lemma createMessage_frame:
  "messageObjects (fst (createMessage P dr t pd (s\<lparr>lastMessageTime := x\<rparr>))) =
   messageObjects (fst (createMessage P dr t pd s))"
  "messageObjects (fst (createMessage P dr t pd (s\<lparr>uncaught := u\<rparr>))) =
   messageObjects (fst (createMessage P dr t pd s))"
  by (simp_all add: createMessage_def choose_wall_def Let_def
        split: option.splits json.splits sum.splits)

lemma onmessage_frame:
  "messageObjects (fst (onmessage P now dr d (s\<lparr>lastMessageTime := x, uncaught := u\<rparr>))) =
   messageObjects (fst (onmessage P now dr d s))"
  unfolding onmessage_def Let_def
  by (simp add: createMessage_frame split: option.splits sum.splits)

lemma report_messageObjects: "messageObjects (report r) = messageObjects (fst r)"
  by (simp add: report_def split: prod.splits option.splits)

lemma report_uncaught:
  "uncaught (report r) =
     uncaught (fst r) @ (case snd r of None \<Rightarrow> [] | Some e \<Rightarrow> [e])"
  by (simp add: report_def split: prod.splits option.splits)

lemma onmessage_uncaught: "uncaught (fst (onmessage P now dr d s)) = uncaught s"
  by (simp add: onmessage_def createMessage_def Let_def
        split: option.splits json.splits sum.splits)

lemma onmessage_throws:
  "JSON_parse P d = None \<Longrightarrow>
     onmessage P now dr d s = (s\<lparr>lastMessageTime := now\<rparr>, Some SyntaxError)"
  "JSON_parse P d = Some JNull \<Longrightarrow>
     onmessage P now dr d s = (s\<lparr>lastMessageTime := now\<rparr>, Some TypeError)"
  by (simp_all add: onmessage_def)

text \<open>
  C4, as the code has it. \<open>ws.onmessage\<close> sets \<open>lastMessageTime\<close> first, whatever the
  payload. It has no \<open>try\<close>: when \<open>JSON.parse\<close> rejects the payload the \<open>SyntaxError\<close>
  leaves the handler, and so does the \<open>TypeError\<close> of \<open>data.commit\<close> when the payload is
  \<open>null\<close>; the state is then the old one with the new time stamp. The browser reports
  the exception and goes on: the socket stays as it is, and a message after a malformed
  one is handled as if the malformed one had not come.
\<close>

theorem message_stamped_then_decoded:
  "lastMessageTime (fst (onmessage P now dr d s)) = now
   \<and> (JSON_parse P d = None \<longrightarrow>
        onmessage P now dr d s = (s\<lparr>lastMessageTime := now\<rparr>, Some SyntaxError))
   \<and> (JSON_parse P d = Some JNull \<longrightarrow>
        onmessage P now dr d s = (s\<lparr>lastMessageTime := now\<rparr>, Some TypeError))
   \<and> (socket_in s c OPEN \<longrightarrow>
        lastMessageTime (client_step P (SocketMessage c now dr d) s) = now
      \<and> sockets (client_step P (SocketMessage c now dr d) s) = sockets s
      \<and> uncaught (client_step P (SocketMessage c now dr d) s) =
          uncaught s @ (case snd (onmessage P now dr d s) of None \<Rightarrow> [] | Some e \<Rightarrow> [e]))
   \<and> (socket_in s c OPEN \<and> JSON_parse P d = None \<longrightarrow>
        client_step P (SocketMessage c now dr d) s =
          s\<lparr>lastMessageTime := now, uncaught := uncaught s @ [SyntaxError]\<rparr>
      \<and> messageObjects (client_run P [SocketMessage c now dr d, SocketMessage c now' dr' d'] s) =
          messageObjects (client_step P (SocketMessage c now' dr' d') s)
      \<and> lastMessageTime (client_run P [SocketMessage c now dr d, SocketMessage c now' dr' d'] s) =
          now')"
proof -
  have stamp: "lastMessageTime (fst (onmessage P now dr d s)) = now"
    by (simp add: message_conn)
  have step: "lastMessageTime (client_step P (SocketMessage c now dr d) s) = now
      \<and> sockets (client_step P (SocketMessage c now dr d) s) = sockets s
      \<and> uncaught (client_step P (SocketMessage c now dr d) s) =
          uncaught s @ (case snd (onmessage P now dr d s) of None \<Rightarrow> [] | Some e \<Rightarrow> [e])"
    if "socket_in s c OPEN"
    using that by (simp add: message_conn report_uncaught onmessage_uncaught)
  have bad: "client_step P (SocketMessage c now dr d) s =
          s\<lparr>lastMessageTime := now, uncaught := uncaught s @ [SyntaxError]\<rparr>
      \<and> messageObjects (client_run P [SocketMessage c now dr d, SocketMessage c now' dr' d'] s) =
          messageObjects (client_step P (SocketMessage c now' dr' d') s)
      \<and> lastMessageTime (client_run P [SocketMessage c now dr d, SocketMessage c now' dr' d'] s) =
          now'"
    if op: "socket_in s c OPEN" and syn: "JSON_parse P d = None"
  proof -
    let ?s1 = "s\<lparr>lastMessageTime := now, uncaught := uncaught s @ [SyntaxError]\<rparr>"
    have s1: "client_step P (SocketMessage c now dr d) s = ?s1"
      using op by (simp add: onmessage_throws(1) [OF syn] report_def)
    have op1: "socket_in ?s1 c OPEN"
      using op by (simp add: socket_in_def)
    have "messageObjects (client_step P (SocketMessage c now' dr' d') ?s1) =
        messageObjects (client_step P (SocketMessage c now' dr' d') s)"
      using op op1 by (simp add: report_messageObjects onmessage_frame)
    moreover have "lastMessageTime (client_step P (SocketMessage c now' dr' d') ?s1) = now'"
      using op1 by (simp add: message_conn)
    ultimately show ?thesis using s1 by simp
  qed
  from stamp onmessage_throws [of P d now dr s] step bad show ?thesis by blast
qed

text \<open>
  The claim as stated fails: the text \<open>ping\<close> is not JSON, and the handler's result carries
  the \<open>SyntaxError\<close>; dispatched to an open socket it ends up among the uncaught
  exceptions. The text \<open>null\<close> parses, and reading \<open>data.commit\<close> throws.
\<close>

theorem malformed_payload_throws:
  "snd (onmessage sample_platform 5 \<lparr>wall_floor = 0, discard_draw = 0\<rparr> ''ping'' (mount True 0 0)) =
     Some SyntaxError
   \<and> uncaught (client_run sample_platform
        [SocketOpen 0 0, SocketMessage 0 5 \<lparr>wall_floor = 0, discard_draw = 0\<rparr> ''ping'']
        (mount True 0 0)) = [SyntaxError]
   \<and> snd (onmessage sample_platform 5 \<lparr>wall_floor = 0, discard_draw = 0\<rparr> ''null'' (mount True 0 0)) =
     Some TypeError"
  by (simp add: onmessage_def sample_texts mount_def connectWebSocket_def socket_in_def
        set_socket_def onopen_def report_def Let_def)

theorem message_stamped_witness:
  "socket_in (client_step sample_platform (SocketOpen 0 0) (mount True 0 0)) 0 OPEN
   \<and> JSON_parse sample_platform ''ping'' = None
   \<and> JSON_parse sample_platform ''null'' = Some JNull
   \<and> lastMessageTime (client_run sample_platform
        [SocketMessage 0 5 \<lparr>wall_floor = 4, discard_draw = 0\<rparr> ''ping'',
         SocketMessage 0 7 \<lparr>wall_floor = 4, discard_draw = 0\<rparr> post_hi_text]
        (client_step sample_platform (SocketOpen 0 0) (mount True 0 0))) = 7
   \<and> messageObjects (client_run sample_platform
        [SocketMessage 0 5 \<lparr>wall_floor = 4, discard_draw = 0\<rparr> ''ping'',
         SocketMessage 0 7 \<lparr>wall_floor = 4, discard_draw = 0\<rparr> post_hi_text]
        (client_step sample_platform (SocketOpen 0 0) (mount True 0 0))) =
      messageObjects (client_step sample_platform
         (SocketMessage 0 7 \<lparr>wall_floor = 4, discard_draw = 0\<rparr> post_hi_text)
         (client_step sample_platform (SocketOpen 0 0) (mount True 0 0)))
   \<and> onmessage sample_platform 5 \<lparr>wall_floor = 4, discard_draw = 0\<rparr> ''null'' (mount True 0 0) =
        ((mount True 0 0)\<lparr>lastMessageTime := 5\<rparr>, Some TypeError)"
proof -
  let ?s = "client_step sample_platform (SocketOpen 0 0) (mount True 0 0)"
  let ?dr = "\<lparr>wall_floor = 4, discard_draw = 0\<rparr>"
  have op: "socket_in ?s 0 OPEN"
    by (simp add: mount_def connectWebSocket_def socket_in_def set_socket_def onopen_def Let_def)
  note th = message_stamped_then_decoded [where P = sample_platform and d = "''ping''"
      and s = ?s and c = 0 and now = 5 and dr = ?dr and now' = 7 and dr' = ?dr
      and d' = post_hi_text]
  note th2 = message_stamped_then_decoded [where P = sample_platform and d = "''null''"
      and s = "mount True 0 0" and c = 0 and now = 5 and dr = ?dr and now' = 7 and dr' = ?dr
      and d' = post_hi_text]
  from th op sample_texts(5) have
    a: "lastMessageTime (client_run sample_platform
        [SocketMessage 0 5 ?dr ''ping'', SocketMessage 0 7 ?dr post_hi_text] ?s) = 7"
    and b: "messageObjects (client_run sample_platform
        [SocketMessage 0 5 ?dr ''ping'', SocketMessage 0 7 ?dr post_hi_text] ?s) =
      messageObjects (client_step sample_platform (SocketMessage 0 7 ?dr post_hi_text) ?s)"
    by blast+
  from th2 sample_texts(4) have
    c: "onmessage sample_platform 5 ?dr ''null'' (mount True 0 0) =
        ((mount True 0 0)\<lparr>lastMessageTime := 5\<rparr>, Some TypeError)"
    by blast
  from op sample_texts(5) sample_texts(4) a b c show ?thesis by (intro conjI)
qed

section \<open>Teardown\<close>

text \<open>Once \<open>shouldReconnect\<close> is false, no event schedules a timer or creates a socket.\<close>

lemma torn_down_step:
  assumes "\<not> shouldReconnect s"
  shows "\<not> shouldReconnect (client_step P e s)"
    and "scheduled (client_step P e s) = scheduled s"
    and "length (sockets (client_step P e s)) = length (sockets s)"
  using assms
  by (cases e; simp add: handler_defs message_conn Let_def
        split: option.splits interval_kind.splits prod.splits)+

lemma torn_down_run:
  "\<not> shouldReconnect s \<Longrightarrow>
   \<not> shouldReconnect (client_run P evs s) \<and> scheduled (client_run P evs s) = scheduled s
   \<and> length (sockets (client_run P evs s)) = length (sockets s)"
  by (induction evs arbitrary: s) (simp_all add: torn_down_step)

lemma cleanup_fields:
  "\<not> shouldReconnect (cleanup s)" "scheduled (cleanup s) = scheduled s"
  "length (sockets (cleanup s)) = length (sockets s)"
  by (simp_all add: handler_defs Let_def split: option.splits)

text \<open>
  C7. After the effect's cleanup has run in any state, no sequence of later events (the
  queued \<open>close\<close> of the old socket, timers still pending, anything else) makes a
  \<open>setTimeout\<close> call or creates a socket, and \<open>shouldReconnect\<close> stays false.
\<close>

theorem no_reconnect_after_teardown:
  "scheduled (client_run P evs (cleanup s)) = scheduled s
   \<and> length (sockets (client_run P evs (cleanup s))) = length (sockets s)
   \<and> \<not> shouldReconnect (client_run P evs (cleanup s))"
  using torn_down_run [of "cleanup s" P evs] by (simp add: cleanup_fields)

section \<open>The interval timers and the connection they belong to\<close>

lemma one_connection_mount: "one_connection (mount ctor_ok t0 d)"
  by (simp add: one_connection_def others_closed_def current_closed_def timers_of_current_def
        mount_def connectWebSocket_def scheduleReconnect_def maxReconnectAttempts_def Let_def)

text \<open>Facts read off the invariant.\<close>

lemma live_is_current:
  assumes "one_connection s" and "c < length (sockets s)" and "sockets s ! c \<noteq> CLOSED"
  shows "ws s = Some c"
  using assms by (auto simp: one_connection_def others_closed_def)

lemma live_no_pending:
  assumes "one_connection s" and "c < length (sockets s)" and "sockets s ! c \<noteq> CLOSED"
  shows "pending s = []"
  using assms live_is_current [OF assms]
  by (auto simp: one_connection_def current_closed_def)

lemma not_opened_no_intervals:
  assumes "one_connection s" and "ws s = Some c" and "sockets s ! c = CONNECTING \<or> sockets s ! c = CLOSED"
  shows "intervals s = []"
  using assms by (auto simp: one_connection_def timers_of_current_def)

lemma no_current_no_intervals:
  assumes "one_connection s" and "ws s = None"
  shows "intervals s = []"
  using assms by (auto simp: one_connection_def timers_of_current_def)

lemma pending_no_intervals:
  assumes "one_connection s" and "pending s \<noteq> []"
  shows "intervals s = []" and "current_closed s"
proof -
  from assms show cc: "current_closed s" by (auto simp: one_connection_def)
  show "intervals s = []"
  proof (cases "ws s")
    case None
    with assms(1) show ?thesis by (rule no_current_no_intervals)
  next
    case (Some c)
    with cc have "sockets s ! c = CLOSED" by (simp add: current_closed_def)
    with assms(1) Some show ?thesis by (intro not_opened_no_intervals [of s c]) simp_all
  qed
qed

lemma onclose_clears:
  assumes "timers_of_current s"
  shows "intervals (onclose s) = []"
  using assms
  by (auto simp: timers_of_current_def onclose_def clearInterval_def scheduleReconnect_def
        Let_def)

lemma cleanup_clears:
  assumes "timers_of_current s"
  shows "intervals (cleanup s) = []"
  using assms
  by (auto simp: timers_of_current_def cleanup_def clearInterval_def clearTimeout_def
        ws_close_def Let_def split: option.splits)


lemma inv_open:
  assumes inv: "one_connection s" and en: "socket_in s c CONNECTING"
  shows "one_connection (onopen c now (set_socket c OPEN s))"
proof -
  from en have len: "c < length (sockets s)" and st: "sockets s ! c = CONNECTING"
    by (simp_all add: socket_in_def)
  have cur: "ws s = Some c"
    using inv len st by (intro live_is_current) simp_all
  have pe: "pending s = []"
    using inv len st by (intro live_no_pending [of s c]) simp_all
  have iv: "intervals s = []"
    using inv cur st by (intro not_opened_no_intervals [of s c]) simp_all
  from inv have nt: "0 < next_timer s" and oc: "others_closed s"
    by (simp_all add: one_connection_def)
  have oc': "others_closed (onopen c now (set_socket c OPEN s))"
    using oc cur by (auto simp: others_closed_def onopen_def set_socket_def Let_def)
  have tc: "timers_of_current (onopen c now (set_socket c OPEN s))"
    using cur len iv nt
    by (simp add: timers_of_current_def onopen_def set_socket_def Let_def)
  show ?thesis
    using nt cur len pe oc' tc
    unfolding one_connection_def
    by (simp add: onopen_def set_socket_def Let_def)
qed

lemma scheduleReconnect_fields:
  "sockets (scheduleReconnect s) = sockets s"
  "ws (scheduleReconnect s) = ws s"
  "intervals (scheduleReconnect s) = intervals s"
  "heartbeatInterval (scheduleReconnect s) = heartbeatInterval s"
  "connectionCheckInterval (scheduleReconnect s) = connectionCheckInterval s"
  "0 < next_timer s \<Longrightarrow> 0 < next_timer (scheduleReconnect s)"
  "pending s = [] \<Longrightarrow>
     pending (scheduleReconnect s) = [] \<or> (\<exists>t d. pending (scheduleReconnect s) = [(t, d)])"
  by (simp_all add: scheduleReconnect_def Let_def)

lemma scheduleReconnect_preds:
  "others_closed (scheduleReconnect s) = others_closed s"
  "current_closed (scheduleReconnect s) = current_closed s"
  "timers_of_current (scheduleReconnect s) = timers_of_current s"
  by (simp_all add: others_closed_def current_closed_def timers_of_current_def
        scheduleReconnect_fields)

lemma inv_schedule:
  assumes "0 < next_timer s" and "\<forall>c. ws s = Some c \<longrightarrow> c < length (sockets s)"
    and "others_closed s" and "current_closed s" and "pending s = []" and "intervals s = []"
  shows "one_connection (scheduleReconnect s)"
  using assms scheduleReconnect_fields(7) [of s]
  unfolding one_connection_def
  by (auto simp: scheduleReconnect_fields scheduleReconnect_preds timers_of_current_def)

lemma inv_close:
  assumes inv: "one_connection s" and len: "c < length (sockets s)"
    and st: "sockets s ! c \<noteq> CLOSED"
  shows "one_connection (onclose (set_socket c CLOSED s))"
proof -
  let ?s1 = "set_socket c CLOSED s"
  have cur: "ws s = Some c"
    using inv len st by (rule live_is_current)
  have pe: "pending s = []"
    using inv len st by (rule live_no_pending)
  from inv have nt: "0 < next_timer s" and oc: "others_closed s" and tc: "timers_of_current s"
    by (simp_all add: one_connection_def)
  let ?s2 = "(if id_truthy (heartbeatInterval ?s1)
               then (clearInterval (heartbeatInterval ?s1) ?s1)\<lparr>heartbeatInterval := None\<rparr>
               else ?s1)"
  let ?s3 = "(if id_truthy (connectionCheckInterval ?s2)
               then (clearInterval (connectionCheckInterval ?s2) ?s2)\<lparr>connectionCheckInterval := None\<rparr>
               else ?s2)"
  have oncl: "onclose ?s1 = (if shouldReconnect ?s3 then scheduleReconnect ?s3 else ?s3)"
    by (simp add: onclose_def Let_def)
  have f3: "sockets ?s3 = (sockets s)[c := CLOSED]" "ws ?s3 = Some c" "pending ?s3 = []"
    "next_timer ?s3 = next_timer s"
    using cur pe by (simp_all add: set_socket_def clearInterval_def)
  have i3: "intervals ?s3 = []"
    using tc by (auto simp: timers_of_current_def set_socket_def clearInterval_def)
  have oc3: "others_closed ?s3"
    using oc cur unfolding others_closed_def f3 by (auto simp: nth_list_update)
  have cc3: "current_closed ?s3"
    using len unfolding current_closed_def f3 by simp
  have w3: "\<forall>c'. ws ?s3 = Some c' \<longrightarrow> c' < length (sockets ?s3)"
    using len unfolding f3 by simp
  have a: "one_connection (scheduleReconnect ?s3)"
    using nt w3 oc3 cc3 f3(3) i3 unfolding f3(4) [symmetric] by (rule inv_schedule)
  have b: "one_connection ?s3"
    unfolding one_connection_def
    using nt w3 oc3 f3(3) i3 unfolding f3(4) [symmetric] by (simp add: timers_of_current_def)
  from a b show ?thesis unfolding oncl by simp
qed

lemma inv_timeout:
  assumes inv: "one_connection s" and en: "timer \<in> fst ` set (pending s)"
  shows "one_connection
     (reconnect_callback ctor_ok (s\<lparr>pending := filter (\<lambda>(i, d). i \<noteq> timer) (pending s)\<rparr>))"
proof -
  let ?s1 = "s\<lparr>pending := filter (\<lambda>(i, d). i \<noteq> timer) (pending s)\<rparr>"
  from en have ne: "pending s \<noteq> []" by auto
  with inv obtain t d where p: "pending s = [(t, d)]" by (auto simp: one_connection_def)
  with en have p1: "pending ?s1 = []" by simp
  have iv: "intervals s = []" and cc: "current_closed s"
    using inv ne by (rule pending_no_intervals)+
  from inv have nt: "0 < next_timer s" and oc: "others_closed s"
    and w: "\<forall>c. ws s = Some c \<longrightarrow> c < length (sockets s)"
    by (simp_all add: one_connection_def)
  have base: "one_connection ?s1"
    unfolding one_connection_def using nt oc w p1 iv
    by (simp add: others_closed_def timers_of_current_def)
  show ?thesis
  proof (cases "shouldReconnect s")
    case False
    with base show ?thesis by (simp add: reconnect_callback_def)
  next
    case sr: True
    let ?s2 = "?s1\<lparr>reconnectAttempts := Suc (reconnectAttempts ?s1)\<rparr>"
    have rc: "reconnect_callback ctor_ok ?s1 = connectWebSocket ctor_ok ?s2"
      using sr by (simp add: reconnect_callback_def)
    show ?thesis
    proof (cases ctor_ok)
      case True
      have all: "sockets s ! i = CLOSED" if "i < length (sockets s)" for i
        using that oc cc by (cases "ws s = Some i") (auto simp: others_closed_def current_closed_def)
      have "one_connection (?s2\<lparr>sockets := sockets ?s2 @ [CONNECTING], ws := Some (length (sockets ?s2))\<rparr>)"
        unfolding one_connection_def
        using nt p1 iv all
        by (auto simp: others_closed_def timers_of_current_def nth_append)
      with True show ?thesis unfolding rc by (simp add: connectWebSocket_def)
    next
      case False
      have "one_connection (scheduleReconnect ?s2)"
        using nt w oc cc p1 iv
        by (intro inv_schedule) (simp_all add: others_closed_def current_closed_def)
      with False show ?thesis unfolding rc by (simp add: connectWebSocket_def)
    qed
  qed
qed

lemma inv_ws_close:
  assumes inv: "one_connection s" and cur: "ws s = Some c"
  shows "one_connection (ws_close c s)"
proof (cases "c < length (sockets s) \<and> (sockets s ! c = CONNECTING \<or> sockets s ! c = OPEN)")
  case False
  then have "ws_close c s = s" by (auto simp: ws_close_def)
  with inv show ?thesis by simp
next
  case True
  then have len: "c < length (sockets s)" and st: "sockets s ! c \<noteq> CLOSED" by auto
  have pe: "pending s = []" using inv len st by (rule live_no_pending)
  from inv have nt: "0 < next_timer s" and oc: "others_closed s" and tc: "timers_of_current s"
    by (simp_all add: one_connection_def)
  have wc: "ws_close c s = s\<lparr>sockets := (sockets s)[c := CLOSING]\<rparr>"
    using True by (simp add: ws_close_def)
  have oc': "others_closed (ws_close c s)"
    using oc cur unfolding wc others_closed_def by (auto simp: nth_list_update)
  have tc': "timers_of_current (ws_close c s)"
    using tc cur len unfolding wc timers_of_current_def by auto
  show ?thesis
    unfolding one_connection_def using nt cur len pe oc' tc' by (simp add: wc)
qed

lemma inv_interval:
  assumes inv: "one_connection s"
  shows "one_connection (heartbeat True s)" and "one_connection (connectionCheck now s)"
proof -
  have "heartbeat True s = s \<or> (\<exists>c. heartbeat True s = s\<lparr>pings := pings s @ [c]\<rparr>)"
    by (auto simp: heartbeat_def split: option.splits)
  moreover have "one_connection (s\<lparr>pings := pings s @ [c]\<rparr>)" for c
  proof -
    have "one_connection (s\<lparr>pings := pings s @ [c]\<rparr>) = one_connection s"
      by (simp add: one_connection_def others_closed_def current_closed_def
            timers_of_current_def)
    with inv show ?thesis by simp
  qed
  ultimately show "one_connection (heartbeat True s)" using inv by auto
  have "connectionCheck now s = s \<or> (\<exists>c. ws s = Some c \<and> connectionCheck now s = ws_close c s)"
    by (auto simp: connectionCheck_def Let_def split: option.splits)
  with inv show "one_connection (connectionCheck now s)"
    by (auto intro: inv_ws_close)
qed

lemma inv_cleanup:
  assumes inv: "one_connection s"
  shows "one_connection (cleanup s)"
proof -
  let ?s0 = "s\<lparr>shouldReconnect := False\<rparr>"
  let ?s1 = "(if id_truthy (reconnectTimeout ?s0) then clearTimeout (reconnectTimeout ?s0) ?s0 else ?s0)"
  let ?s2 = "(if id_truthy (heartbeatInterval ?s1) then clearInterval (heartbeatInterval ?s1) ?s1 else ?s1)"
  let ?s3 = "(if id_truthy (connectionCheckInterval ?s2)
               then clearInterval (connectionCheckInterval ?s2) ?s2 else ?s2)"
  have cl: "cleanup s = (case ws ?s3 of None \<Rightarrow> ?s3 | Some c \<Rightarrow> ws_close c ?s3)"
    by (simp add: cleanup_def Let_def)
  from inv have nt: "0 < next_timer s" and oc: "others_closed s" and tc: "timers_of_current s"
    and w: "\<forall>c. ws s = Some c \<longrightarrow> c < length (sockets s)"
    and pc: "pending s = [] \<or> ((\<exists>t d. pending s = [(t, d)]) \<and> current_closed s)"
    by (simp_all add: one_connection_def)
  have f3: "sockets ?s3 = sockets s" "ws ?s3 = ws s" "next_timer ?s3 = next_timer s"
    by (simp_all add: clearTimeout_def clearInterval_def)
  have i3: "intervals ?s3 = []"
    using tc by (auto simp: timers_of_current_def clearTimeout_def clearInterval_def)
  have p3: "pending ?s3 = [] \<or> pending ?s3 = pending s"
  proof (cases "pending s")
    case Nil
    then show ?thesis by (simp add: clearTimeout_def clearInterval_def)
  next
    case (Cons p ps)
    with pc have "ps = []" by auto
    with Cons show ?thesis
      by (cases p) (simp add: clearTimeout_def clearInterval_def)
  qed
  have oc3: "others_closed ?s3"
    using oc unfolding others_closed_def f3 .
  have cc3: "current_closed ?s3 = current_closed s"
    unfolding current_closed_def f3 ..
  have tc3: "timers_of_current ?s3"
    unfolding timers_of_current_def using i3 by (rule disjI1)
  have nt3: "0 < next_timer ?s3"
    using nt unfolding f3 .
  have w3: "\<forall>c. ws ?s3 = Some c \<longrightarrow> c < length (sockets ?s3)"
    using w unfolding f3 .
  have pc3: "pending ?s3 = [] \<or> ((\<exists>t d. pending ?s3 = [(t, d)]) \<and> current_closed ?s3)"
    using p3 pc cc3 by metis
  have inv3: "one_connection ?s3"
    unfolding one_connection_def using nt3 w3 oc3 pc3 tc3 by (intro conjI)
  show ?thesis
  proof (cases "ws s")
    case None
    then have "ws ?s3 = None" by (simp only: f3)
    then have eq: "cleanup s = ?s3" unfolding cl by (simp only: option.case)
    show ?thesis unfolding eq by (rule inv3)
  next
    case (Some c)
    then have w3c: "ws ?s3 = Some c" by (simp only: f3)
    then have eq: "cleanup s = ws_close c ?s3" unfolding cl by (simp only: option.case)
    show ?thesis unfolding eq using inv3 w3c by (rule inv_ws_close)
  qed
qed

lemma inv_message:
  assumes "one_connection s"
  shows "one_connection (report (onmessage P now dr d s))"
proof -
  have "one_connection (report (onmessage P now dr d s)) = one_connection s"
    by (simp add: one_connection_def others_closed_def current_closed_def
          timers_of_current_def message_conn)
  with assms show ?thesis by simp
qed

lemma one_connection_step:
  assumes "one_connection s" and "send_returns e"
  shows "one_connection (client_step P e s)"
proof (cases e)
  case (SocketOpen c now)
  with assms show ?thesis by (simp add: inv_open)
next
  case (SocketMessage c now dr d)
  with assms show ?thesis by (simp add: inv_message)
next
  case (SocketError c)
  with assms show ?thesis by (simp add: onerror_def)
next
  case (SocketClose c)
  with assms show ?thesis by (simp add: inv_close)
next
  case (TimeoutFire t ok)
  with assms show ?thesis by (simp add: inv_timeout)
next
  case (IntervalFire t now ok)
  with assms show ?thesis
    by (simp add: inv_interval split: option.splits interval_kind.splits)
next
  case Unmount
  with assms show ?thesis by (simp add: inv_cleanup)
qed

lemma one_connection_run:
  "one_connection s \<Longrightarrow> list_all send_returns evs \<Longrightarrow> one_connection (client_run P evs s)"
  by (induction evs arbitrary: s) (simp_all add: one_connection_step)


lemma onclose_fields:
  "sockets (onclose s) = sockets s" "ws (onclose s) = ws s"
  by (simp_all add: onclose_def clearInterval_def scheduleReconnect_def Let_def)

lemma close_cancels:
  assumes inv: "one_connection s" and len: "c < length (sockets s)"
    and st: "sockets s ! c \<noteq> CLOSED"
  shows "intervals (client_step P (SocketClose c) s) = []"
proof -
  let ?s' = "onclose (set_socket c CLOSED s)"
  have cur: "ws s = Some c" using inv len st by (rule live_is_current)
  have inv': "one_connection ?s'" using inv len st by (rule inv_close)
  have "ws ?s' = Some c" "sockets ?s' ! c = CLOSED"
    using cur len by (simp_all add: onclose_fields set_socket_def)
  then have "intervals ?s' = []"
    using inv' by (intro not_opened_no_intervals [of ?s' c]) simp_all
  with len st show ?thesis by simp
qed

lemma tick_lengths:
  "length (sockets (heartbeat ok s)) = length (sockets s)"
  "length (sockets (connectionCheck now s)) = length (sockets s)"
  by (simp_all add: heartbeat_def connectionCheck_def ws_close_def scheduleReconnect_def Let_def
        split: option.splits)

lemma new_socket_without_timers:
  assumes inv: "one_connection s"
    and new: "length (sockets (client_step P e s)) \<noteq> length (sockets s)"
  shows "intervals s = []"
proof (cases e)
  case (SocketOpen c now)
  with new have False by (simp add: onopen_def set_socket_def Let_def split: if_splits)
  then show ?thesis ..
next
  case (SocketMessage c now dr d)
  with new have False by (simp add: message_conn split: if_splits)
  then show ?thesis ..
next
  case (SocketError c)
  with new have False by (simp add: onerror_def)
  then show ?thesis ..
next
  case (SocketClose c)
  with new have False by (simp add: onclose_fields set_socket_def split: if_splits)
  then show ?thesis ..
next
  case (TimeoutFire t ok)
  with new have "pending s \<noteq> []" by (auto split: if_splits)
  with inv show ?thesis by (rule pending_no_intervals)
next
  case (IntervalFire t now ok)
  with new have False
    by (simp add: tick_lengths split: option.splits prod.splits interval_kind.splits)
  then show ?thesis ..
next
  case Unmount
  with new have False
    by (simp add: cleanup_def clearTimeout_def clearInterval_def ws_close_def Let_def
          split: option.splits if_splits)
  then show ?thesis ..
qed

lemma timers_current:
  assumes inv: "one_connection s" and mem: "(t, k, c, p) \<in> set (intervals s)"
  shows "ws s = Some c \<and> (sockets s ! c = OPEN \<or> sockets s ! c = CLOSING)"
  using assms by (auto simp: one_connection_def timers_of_current_def)

lemma timers_one_set:
  assumes inv: "one_connection s"
  shows "intervals s = [] \<or>
     (\<exists>hb cc c. intervals s = [(hb, Heartbeat, c, 5000), (cc, ConnectionCheck, c, 5000)])"
  using assms by (auto simp: one_connection_def timers_of_current_def)

text \<open>
  C8, as the code has it. In an effect run from its mount in which no heartbeat send
  throws, after any sequence of events: every active interval was started by the current
  socket's \<open>onopen\<close>, and that socket is open or closing; the active intervals are none, or
  one heartbeat and one check of the same socket; every socket but the current one is
  closed; the \<open>close\<close> event of a socket that is not closed yet leaves no interval active;
  and an event creates a socket only in a state with no interval active.
\<close>

theorem one_timer_set_for_the_current_socket:
  assumes "list_all send_returns evs"
  shows "one_connection (client_run P evs (mount ctor_ok t0 d))
    \<and> (\<forall>x \<in> set (intervals (client_run P evs (mount ctor_ok t0 d))).
          case x of (t, k, c, p) \<Rightarrow>
            ws (client_run P evs (mount ctor_ok t0 d)) = Some c
          \<and> (sockets (client_run P evs (mount ctor_ok t0 d)) ! c = OPEN
             \<or> sockets (client_run P evs (mount ctor_ok t0 d)) ! c = CLOSING))
    \<and> (intervals (client_run P evs (mount ctor_ok t0 d)) = []
        \<or> (\<exists>hb cc c. intervals (client_run P evs (mount ctor_ok t0 d)) =
              [(hb, Heartbeat, c, 5000), (cc, ConnectionCheck, c, 5000)]))
    \<and> (\<forall>c. c < length (sockets (client_run P evs (mount ctor_ok t0 d)))
            \<and> sockets (client_run P evs (mount ctor_ok t0 d)) ! c \<noteq> CLOSED \<longrightarrow>
          intervals (client_step P (SocketClose c) (client_run P evs (mount ctor_ok t0 d))) = [])
    \<and> (\<forall>e. length (sockets (client_step P e (client_run P evs (mount ctor_ok t0 d))))
              \<noteq> length (sockets (client_run P evs (mount ctor_ok t0 d))) \<longrightarrow>
          intervals (client_run P evs (mount ctor_ok t0 d)) = [])"
proof -
  let ?s = "client_run P evs (mount ctor_ok t0 d)"
  have inv: "one_connection ?s"
    using one_connection_mount assms by (rule one_connection_run)
  have a: "\<forall>x \<in> set (intervals ?s). case x of (t, k, c, p) \<Rightarrow>
      ws ?s = Some c \<and> (sockets ?s ! c = OPEN \<or> sockets ?s ! c = CLOSING)"
    using timers_current [OF inv] by auto
  have b: "intervals ?s = [] \<or>
      (\<exists>hb cc c. intervals ?s = [(hb, Heartbeat, c, 5000), (cc, ConnectionCheck, c, 5000)])"
    using inv by (rule timers_one_set)
  have c: "\<forall>c. c < length (sockets ?s) \<and> sockets ?s ! c \<noteq> CLOSED \<longrightarrow>
      intervals (client_step P (SocketClose c) ?s) = []"
    using close_cancels [OF inv] by blast
  have d: "\<forall>e. length (sockets (client_step P e ?s)) \<noteq> length (sockets ?s) \<longrightarrow>
      intervals ?s = []"
    using new_socket_without_timers [OF inv] by blast
  from inv a b c d show ?thesis by (intro conjI)
qed

text \<open>
  The claim as stated fails. The timers stay active while the socket is closing: after the
  staleness check has called \<open>ws.close()\<close> and until the \<open>close\<close> event, socket 0 is
  \<open>CLOSING\<close> and both its intervals are active. And when a heartbeat send throws, the
  \<open>catch\<close> requests a reconnect and the \<open>close\<close> handler requests another: two sockets
  are created, both open, and the intervals of both are active at once.
\<close>

theorem timers_outlive_open_state:
  "sockets (client_run sample_platform [SocketOpen 0 0, IntervalFire 2 10001 True]
      (mount True 0 0)) = [CLOSING]
   \<and> intervals (client_run sample_platform [SocketOpen 0 0, IntervalFire 2 10001 True]
      (mount True 0 0)) = [(1, Heartbeat, 0, 5000), (2, ConnectionCheck, 0, 5000)]
   \<and> sockets (client_run sample_platform
        [SocketOpen 0 0, IntervalFire 1 5000 False, SocketClose 0, TimeoutFire 3 True,
         TimeoutFire 4 True, SocketOpen 1 9000, SocketOpen 2 9001] (mount True 0 0)) =
      [CLOSED, OPEN, OPEN]
   \<and> intervals (client_run sample_platform
        [SocketOpen 0 0, IntervalFire 1 5000 False, SocketClose 0, TimeoutFire 3 True,
         TimeoutFire 4 True, SocketOpen 1 9000, SocketOpen 2 9001] (mount True 0 0)) =
      [(5, Heartbeat, 1, 5000), (6, ConnectionCheck, 1, 5000), (7, Heartbeat, 2, 5000), (8, ConnectionCheck, 2, 5000)]"
  by (simp add: mount_def connectWebSocket_def socket_in_def set_socket_def onopen_def
        heartbeat_def connectionCheck_def connectionTimeout_def ws_is_open_def ws_close_def
        scheduleReconnect_def maxReconnectAttempts_def baseReconnectDelay_def
        onclose_def clearInterval_def reconnect_callback_def Let_def)

theorem one_timer_set_witness:
  "list_all send_returns [SocketOpen 0 0, IntervalFire 1 5000 True, IntervalFire 2 10001 True]
   \<and> intervals (client_run sample_platform
        [SocketOpen 0 0, IntervalFire 1 5000 True, IntervalFire 2 10001 True] (mount True 0 0)) =
      [(1, Heartbeat, 0, 5000), (2, ConnectionCheck, 0, 5000)]
   \<and> sockets (client_run sample_platform
        [SocketOpen 0 0, IntervalFire 1 5000 True, IntervalFire 2 10001 True] (mount True 0 0)) =
      [CLOSING]
   \<and> intervals (client_step sample_platform (SocketClose 0) (client_run sample_platform
        [SocketOpen 0 0, IntervalFire 1 5000 True, IntervalFire 2 10001 True] (mount True 0 0))) = []"
proof -
  let ?evs = "[SocketOpen 0 0, IntervalFire 1 5000 True, IntervalFire 2 10001 True]"
  let ?s = "client_run sample_platform ?evs (mount True 0 0)"
  have ok: "list_all send_returns ?evs" by simp
  have s: "intervals ?s = [(1, Heartbeat, 0, 5000), (2, ConnectionCheck, 0, 5000)]" "sockets ?s = [CLOSING]"
    by (simp_all add: mount_def connectWebSocket_def socket_in_def set_socket_def onopen_def
        heartbeat_def connectionCheck_def connectionTimeout_def ws_is_open_def ws_close_def
        Let_def)
  note th = one_timer_set_for_the_current_socket [OF ok, of sample_platform True 0 0]
  have live: "0 < length (sockets ?s) \<and> sockets ?s ! 0 \<noteq> CLOSED"
    unfolding s by simp
  have "intervals (client_step sample_platform (SocketClose 0) ?s) = []"
    using th live by blast
  with ok s show ?thesis by (intro conjI)
qed

section \<open>Staleness\<close>

lemma connectionCheck_stale:
  assumes "ws s = Some c" and "socket_in s c OPEN" and "lastMessageTime s + 10000 < t"
  shows "socket_in (connectionCheck t s) c CLOSING"
  using assms
  by (simp add: connectionCheck_def connectionTimeout_def ws_is_open_def ws_close_def
        socket_in_def Let_def)

lemma connectionCheck_fresh:
  assumes "t \<le> lastMessageTime s + 10000"
  shows "connectionCheck t s = s"
  using assms by (simp add: connectionCheck_def connectionTimeout_def Let_def)

text \<open>
  In an effect whose heartbeat sends all returned, an open socket is the current one, and
  its staleness check, run more than 10000 ms after the last message, closes it.
\<close>

lemma open_socket_checked:
  assumes inv: "one_connection s" and op: "socket_in s c OPEN"
    and chk: "map_of (intervals s) timer = Some (ConnectionCheck, c', period)"
    and late: "lastMessageTime s + 10000 < t"
  shows "socket_in (client_step P (IntervalFire timer t ok) s) c CLOSING"
proof -
  from op have "c < length (sockets s)" "sockets s ! c \<noteq> CLOSED"
    by (simp_all add: socket_in_def)
  with inv have "ws s = Some c" by (rule live_is_current)
  with op late chk show ?thesis by (simp add: connectionCheck_stale)
qed

text \<open>
  Both interval callbacks read the shared variable \<open>ws\<close>: a socket that \<open>ws\<close> does not
  refer to is never closed by them.
\<close>

lemma superseded_socket_not_checked:
  assumes "ws s \<noteq> Some c"
  shows "sockets (client_step P (IntervalFire timer t ok) s) ! c = sockets s ! c"
    and "ws (client_step P (IntervalFire timer t ok) s) = ws s"
  using assms
  by (auto simp: heartbeat_def connectionCheck_def ws_close_def scheduleReconnect_def Let_def
        split: option.splits prod.splits interval_kind.splits)

lemma after_double_reconnect:
  "client_run sample_platform double_reconnect (mount True 0 0) =
     (mount True 0 0)
       \<lparr>sockets := [CLOSED, OPEN, OPEN], ws := Some 2, reconnectTimeout := Some 4,
        heartbeatInterval := Some 7, connectionCheckInterval := Some 8,
        reconnectAttempts := 0, lastMessageTime := 9001, pending := [],
        intervals := [(5, Heartbeat, 1, 5000), (6, ConnectionCheck, 1, 5000),
                      (7, Heartbeat, 2, 5000), (8, ConnectionCheck, 2, 5000)],
        next_timer := 9, scheduled := [2000, 2000]\<rparr>"
  by (simp add: double_reconnect_def mount_def connectWebSocket_def socket_in_def
        set_socket_def onopen_def heartbeat_def ws_is_open_def ws_close_def
        scheduleReconnect_def maxReconnectAttempts_def baseReconnectDelay_def onclose_def
        clearInterval_def reconnect_callback_def Let_def)

lemma client_run_append:
  "client_run P (es @ es') s = client_run P es' (client_run P es s)"
  by (induction es arbitrary: s) simp_all

text \<open>
  C6 fails on the code after a heartbeat send has thrown. The \<open>catch\<close> and the \<open>close\<close>
  handler each request a reconnect, so two sockets are created and both open; \<open>ws\<close> refers
  to the second. No message arrives after 9001. The staleness checks of both sockets test
  \<open>ws\<close>: at 24000 the second socket is closed, the first never is; at 29001, nearly
  20000 ms after the last message and after four checks of its own, socket 1 is still open.
\<close>

theorem stale_superseded_socket_stays_open:
  "sockets (client_run sample_platform double_reconnect (mount True 0 0)) = [CLOSED, OPEN, OPEN]
   \<and> ws (client_run sample_platform double_reconnect (mount True 0 0)) = Some 2
   \<and> lastMessageTime (client_run sample_platform double_reconnect (mount True 0 0)) = 9001
   \<and> intervals (client_run sample_platform double_reconnect (mount True 0 0)) =
       [(5, Heartbeat, 1, 5000), (6, ConnectionCheck, 1, 5000),
        (7, Heartbeat, 2, 5000), (8, ConnectionCheck, 2, 5000)]
   \<and> sockets (client_run sample_platform (double_reconnect @ silent_ticks) (mount True 0 0)) =
       [CLOSED, OPEN, CLOSING]
   \<and> lastMessageTime
        (client_run sample_platform (double_reconnect @ silent_ticks) (mount True 0 0)) = 9001"
  unfolding client_run_append after_double_reconnect
  by (simp add: silent_ticks_def mount_def connectWebSocket_def heartbeat_def
        connectionCheck_def connectionTimeout_def ws_is_open_def ws_close_def Let_def)

section \<open>An attempt that neither opens nor closes\<close>

lemma hanging_step:
  assumes "hanging c s" and "spares c e"
  shows "hanging c (client_step P e s)" and "scheduled (client_step P e s) = scheduled s"
proof -
  from assms(1) have w: "ws s = Some c" and len: "c < length (sockets s)"
    and cur: "sockets s ! c = CONNECTING \<or> sockets s ! c = CLOSING"
    and others: "\<And>i. i < length (sockets s) \<Longrightarrow> i \<noteq> c \<Longrightarrow> sockets s ! i = CLOSED"
    and iv: "intervals s = []" and pe: "pending s = []"
    by (simp_all add: hanging_def)
  have "hanging c (client_step P e s) \<and> scheduled (client_step P e s) = scheduled s"
  proof (cases e)
    case (SocketOpen c' now)
    with assms(2) others have "\<not> socket_in s c' CONNECTING"
      by (auto simp: socket_in_def)
    with SocketOpen assms(1) show ?thesis by simp
  next
    case (SocketMessage c' now dr d)
    have "\<not> socket_in s c' OPEN"
      using others [of c'] cur by (cases "c' = c") (auto simp: socket_in_def)
    with SocketMessage assms(1) show ?thesis by simp
  next
    case (SocketError c')
    with assms(1) show ?thesis by (simp add: onerror_def)
  next
    case (SocketClose c')
    with assms(2) others have "client_step P e s = s"
      by auto
    with assms(1) show ?thesis by simp
  next
    case (TimeoutFire t ok)
    with pe assms(1) show ?thesis by simp
  next
    case (IntervalFire t now ok)
    with iv assms(1) show ?thesis by simp
  next
    case Unmount
    then show ?thesis
      using assms(1)
      by (auto simp: hanging_def cleanup_def clearTimeout_def clearInterval_def ws_close_def
            Let_def nth_list_update split: option.splits)
  qed
  then show "hanging c (client_step P e s)" and "scheduled (client_step P e s) = scheduled s"
    by simp_all
qed

lemma hanging_same_sockets:
  assumes "hanging c s" and "spares c e"
  shows "length (sockets (client_step P e s)) = length (sockets s)"
proof (cases e)
  case (SocketOpen c' now)
  then show ?thesis by (simp add: onopen_def set_socket_def Let_def)
next
  case (SocketMessage c' now dr d)
  then show ?thesis by (simp add: message_conn)
next
  case (SocketClose c')
  with assms have "client_step P e s = s"
    by (auto simp: hanging_def)
  then show ?thesis by simp
next
  case (TimeoutFire t ok)
  with assms(1) show ?thesis by (simp add: hanging_def)
next
  case (IntervalFire t now ok)
  with assms(1) show ?thesis by (simp add: hanging_def)
next
  case Unmount
  then show ?thesis
    by (simp add: cleanup_def clearTimeout_def clearInterval_def ws_close_def Let_def
          split: option.splits)
qed (simp add: onerror_def)

lemma hanging_run:
  "hanging c s \<Longrightarrow> list_all (spares c) evs \<Longrightarrow>
   hanging c (client_run P evs s) \<and> scheduled (client_run P evs s) = scheduled s"
proof (induction evs arbitrary: s)
  case Nil
  then show ?case by simp
next
  case (Cons e es)
  from Cons.prems have h: "hanging c (client_step P e s)"
    and sc: "scheduled (client_step P e s) = scheduled s"
    by (simp_all add: hanging_step)
  from Cons.IH [OF h] Cons.prems(2) sc show ?case by simp
qed

lemma intervals_only_from_onopen:
  assumes "\<And>c now. e \<noteq> SocketOpen c now"
  shows "set (intervals (client_step P e s)) \<subseteq> set (intervals s)"
proof (cases e)
  case (SocketOpen c now)
  with assms [of c now] show ?thesis by blast
next
  case (SocketMessage c now dr d)
  then show ?thesis by (simp add: message_conn)
next
  case (SocketClose c)
  then show ?thesis
    by (auto simp: onclose_def clearInterval_def scheduleReconnect_def set_socket_def Let_def)
next
  case (TimeoutFire t ok)
  then show ?thesis
    by (auto simp: reconnect_callback_def connectWebSocket_def scheduleReconnect_def Let_def)
next
  case (IntervalFire t now ok)
  then show ?thesis
    by (auto simp: heartbeat_def connectionCheck_def ws_close_def scheduleReconnect_def Let_def
          split: option.splits interval_kind.splits)
next
  case Unmount
  then show ?thesis
    by (auto simp: cleanup_def clearTimeout_def clearInterval_def ws_close_def Let_def
          split: option.splits)
qed (simp add: onerror_def)

lemma hanging_mount: "hanging 0 (mount True now d)"
  by (simp add: hanging_def mount_def connectWebSocket_def)

lemma attempting_hanging: "attempting n s \<Longrightarrow> hanging n s"
  by (auto simp: attempting_def hanging_def list_all_length)

lemma new_socket_hanging:
  assumes inv: "one_connection s"
    and new: "length (sockets (client_step P e s)) \<noteq> length (sockets s)"
  shows "hanging (length (sockets s)) (client_step P e s)"
proof (cases e)
  case (SocketOpen c now)
  with new have False by (simp add: onopen_def set_socket_def Let_def split: if_splits)
  then show ?thesis ..
next
  case (SocketMessage c now dr d)
  with new have False by (simp add: message_conn split: if_splits)
  then show ?thesis ..
next
  case (SocketError c)
  with new have False by (simp add: onerror_def)
  then show ?thesis ..
next
  case (SocketClose c)
  with new have False by (simp add: onclose_fields set_socket_def split: if_splits)
  then show ?thesis ..
next
  case (TimeoutFire t ok)
  let ?s1 = "s\<lparr>pending := filter (\<lambda>(i, d). i \<noteq> t) (pending s)\<rparr>"
  from TimeoutFire new have en: "t \<in> fst ` set (pending s)" by (auto split: if_splits)
  then have ne: "pending s \<noteq> []" by auto
  with inv obtain t' d' where p: "pending s = [(t', d')]" by (auto simp: one_connection_def)
  with en have p1: "pending ?s1 = []" by simp
  have iv: "intervals s = []" and cc: "current_closed s"
    using inv ne by (rule pending_no_intervals)+
  from inv have oc: "others_closed s" by (simp add: one_connection_def)
  have all: "sockets s ! i = CLOSED" if "i < length (sockets s)" for i
    using that oc cc by (cases "ws s = Some i") (auto simp: others_closed_def current_closed_def)
  have step: "client_step P e s = reconnect_callback ok ?s1"
    using TimeoutFire en by simp
  have grows: "shouldReconnect s \<and> ok"
  proof (rule ccontr)
    assume "\<not> (shouldReconnect s \<and> ok)"
    then have "length (sockets (reconnect_callback ok ?s1)) = length (sockets s)"
      by (auto simp: reconnect_callback_def connectWebSocket_def scheduleReconnect_fields)
    with new step show False by simp
  qed
  then have "client_step P e s =
      ?s1\<lparr>reconnectAttempts := Suc (reconnectAttempts s),
          sockets := sockets s @ [CONNECTING], ws := Some (length (sockets s))\<rparr>"
    unfolding step by (simp add: reconnect_callback_def connectWebSocket_def)
  then show ?thesis
    using p1 iv all by (simp add: hanging_def nth_append)
next
  case (IntervalFire t now ok)
  with new have False
    by (simp add: tick_lengths split: option.splits prod.splits interval_kind.splits)
  then show ?thesis ..
next
  case Unmount
  with new have False
    by (simp add: cleanup_def clearTimeout_def clearInterval_def ws_close_def Let_def
          split: option.splits if_splits)
  then show ?thesis ..
qed

text \<open>
  C10. Only an \<open>open\<close> event adds an interval timer: every other event leaves the set of
  active intervals as it was or smaller. A connection attempt starts with no timer set
  (so does the first one, at mount, and so does every later one in an effect whose heartbeat
  sends all returned). As long as neither the \<open>open\<close> nor the \<open>close\<close> of
  that socket is dispatched, whatever else is, no interval and no reconnect timer
  exists, no \<open>setTimeout\<close> call is made, the socket is never open and no socket is
  created.
\<close>

theorem no_timer_before_open:
  "((\<forall>c now. e \<noteq> SocketOpen c now) \<longrightarrow>
      set (intervals (client_step P e s)) \<subseteq> set (intervals s))
   \<and> hanging 0 (mount True tm d)
   \<and> (list_all send_returns pre
        \<and> length (sockets (client_step P e' (client_run P pre (mount ctor_ok tm d))))
            \<noteq> length (sockets (client_run P pre (mount ctor_ok tm d))) \<longrightarrow>
        hanging (length (sockets (client_run P pre (mount ctor_ok tm d))))
          (client_step P e' (client_run P pre (mount ctor_ok tm d))))
   \<and> (hanging c s \<and> list_all (spares c) evs \<longrightarrow>
        intervals (client_run P evs s) = [] \<and> pending (client_run P evs s) = []
      \<and> scheduled (client_run P evs s) = scheduled s
      \<and> sockets (client_run P evs s) ! c \<noteq> OPEN
      \<and> length (sockets (client_run P evs s)) = length (sockets s))"
proof -
  have a: "set (intervals (client_step P e s)) \<subseteq> set (intervals s)"
    if "\<forall>c now. e \<noteq> SocketOpen c now"
    using that by (intro intervals_only_from_onopen) simp
  have b: "intervals (client_run P evs s) = [] \<and> pending (client_run P evs s) = []
      \<and> scheduled (client_run P evs s) = scheduled s
      \<and> sockets (client_run P evs s) ! c \<noteq> OPEN"
    if "hanging c s" "list_all (spares c) evs"
    using hanging_run [OF that, of P] by (auto simp: hanging_def)
  have c: "length (sockets (client_run P evs s)) = length (sockets s)"
    if "hanging c s" "list_all (spares c) evs"
    using that
  proof (induction evs arbitrary: s)
    case Nil
    then show ?case by simp
  next
    case (Cons e es)
    have "length (sockets (client_step P e s)) = length (sockets s)"
      using hanging_same_sockets [of c s e P] Cons.prems by simp
    moreover have "length (sockets (client_run P es (client_step P e s))) =
        length (sockets (client_step P e s))"
      using Cons.prems by (intro Cons.IH) (simp_all add: hanging_step)
    ultimately show ?case by simp
  qed
  have d: "hanging (length (sockets (client_run P pre (mount ctor_ok tm d))))
          (client_step P e' (client_run P pre (mount ctor_ok tm d)))"
    if "list_all send_returns pre"
      "length (sockets (client_step P e' (client_run P pre (mount ctor_ok tm d))))
            \<noteq> length (sockets (client_run P pre (mount ctor_ok tm d)))"
  proof -
    have "one_connection (client_run P pre (mount ctor_ok tm d))"
      using one_connection_mount that(1) by (rule one_connection_run)
    then show ?thesis using that(2) by (rule new_socket_hanging)
  qed
  from a b c d hanging_mount [of tm d] show ?thesis by blast
qed

theorem no_timer_before_open_witness:
  "(\<forall>c now. SocketClose 0 \<noteq> SocketOpen c now)
   \<and> hanging 0 (mount True 0 0)
   \<and> list_all (spares 0) [IntervalFire 1 5000 True, TimeoutFire 1 True, SocketError 0, Unmount]
   \<and> intervals (client_run sample_platform
        [IntervalFire 1 5000 True, TimeoutFire 1 True, SocketError 0, Unmount] (mount True 0 0)) = []
   \<and> scheduled (client_run sample_platform
        [IntervalFire 1 5000 True, TimeoutFire 1 True, SocketError 0, Unmount] (mount True 0 0)) = []
   \<and> set (intervals (client_step sample_platform (SocketClose 0) (mount True 0 0))) \<subseteq> {}
   \<and> list_all send_returns [SocketClose 0]
   \<and> hanging 1 (client_step sample_platform (TimeoutFire 1 True)
        (client_run sample_platform [SocketClose 0] (mount True 0 0)))"
proof -
  let ?evs = "[IntervalFire 1 5000 True, TimeoutFire 1 True, SocketError 0, Unmount]"
  let ?s1 = "client_run sample_platform [SocketClose 0] (mount True 0 0)"
  have m: "scheduled (mount True 0 0) = []" "intervals (mount True 0 0) = []"
    by (simp_all add: mount_def connectWebSocket_def)
  have sp: "list_all (spares 0) ?evs" by simp
  have ne: "\<forall>c now. SocketClose 0 \<noteq> SocketOpen c now" by simp
  have sr: "list_all send_returns [SocketClose 0]" by simp
  have s1: "length (sockets ?s1) = 1" "pending ?s1 = [(1, 2000)]" "shouldReconnect ?s1"
    by (simp_all add: mount_def connectWebSocket_def set_socket_def onclose_def
          scheduleReconnect_def maxReconnectAttempts_def baseReconnectDelay_def Let_def)
  have grow: "length (sockets (client_step sample_platform (TimeoutFire 1 True) ?s1)) \<noteq>
      length (sockets ?s1)"
    using s1 by (simp add: reconnect_callback_def connectWebSocket_def)
  note th = no_timer_before_open [where e = "SocketClose 0" and P = sample_platform
      and s = "mount True 0 0" and c = 0 and tm = 0 and d = 0 and evs = ?evs
      and pre = "[SocketClose 0]" and e' = "TimeoutFire 1 True" and ctor_ok = True]
  have "hanging (length (sockets ?s1)) (client_step sample_platform (TimeoutFire 1 True) ?s1)"
    using th sr grow by blast
  then have h1: "hanging 1 (client_step sample_platform (TimeoutFire 1 True) ?s1)"
    unfolding s1(1) .
  have rest: "intervals (client_run sample_platform ?evs (mount True 0 0)) = []
    \<and> scheduled (client_run sample_platform ?evs (mount True 0 0)) = []
    \<and> set (intervals (client_step sample_platform (SocketClose 0) (mount True 0 0))) \<subseteq> {}"
    using th sp ne m by simp
  have h0: "hanging 0 (mount True 0 0)" using th by blast
  from ne h0 sp rest sr h1 show ?thesis by (intro conjI) simp_all
qed

end
